theory Spec2Isabelle
  imports Main "HOL-Library.Char_ord" "HOL-Library.List_Lexorder" "HOL-Library.Multiset"
begin

section \<open>Python values used by app.py\<close>

text \<open>
  The exceptions that the modelled code can raise.  \<open>IntegrityError\<close> carries the text
  that sqlite3 puts into the exception, because the "Tambah" handler shows it to the user.
\<close>

datatype py_error = ValueError | OverflowError | AttributeError | IntegrityError string

subsection \<open>datetime.date\<close>

text \<open>
  A \<open>datetime.date\<close> object holds a year, a month and a day.  Python integers are
  unbounded, so the fields are \<open>int\<close>.  The helper functions follow the module
  \<open>datetime\<close> of the standard library, which \<open>date(...)\<close>, \<open>end - start\<close>,
  \<open>date - timedelta\<close> and \<open>isoformat()\<close> go through.
\<close>

record date =
  year :: int
  month :: int
  day :: int

definition MINYEAR :: int where
  "MINYEAR = 1"

definition MAXYEAR :: int where
  "MAXYEAR = 9999"

definition MAXORDINAL :: int where
  "MAXORDINAL = 3652059"

definition DAYS_IN_MONTH :: "int list" where
  "DAYS_IN_MONTH = [-1, 31, 28, 31, 30, 31, 30, 31, 31, 30, 31, 30, 31]"

definition DAYS_BEFORE_MONTH :: "int list" where
  "DAYS_BEFORE_MONTH = [-1, 0, 31, 59, 90, 120, 151, 181, 212, 243, 273, 304, 334]"

definition is_leap :: "int \<Rightarrow> bool" where
  "is_leap y = (y mod 4 = 0 \<and> (y mod 100 \<noteq> 0 \<or> y mod 400 = 0))"

definition days_before_year :: "int \<Rightarrow> int" where
  "days_before_year yr = (let y = yr - 1 in y * 365 + y div 4 - y div 100 + y div 400)"

definition days_in_month :: "int \<Rightarrow> int \<Rightarrow> int" where
  "days_in_month y m = (if m = 2 \<and> is_leap y then 29 else DAYS_IN_MONTH ! nat m)"

definition days_before_month :: "int \<Rightarrow> int \<Rightarrow> int" where
  "days_before_month y m = DAYS_BEFORE_MONTH ! nat m + (if m > 2 \<and> is_leap y then 1 else 0)"

definition ymd2ord :: "int \<Rightarrow> int \<Rightarrow> int \<Rightarrow> int" where
  "ymd2ord y m d = days_before_year y + days_before_month y m + d"

definition DI400Y :: int where
  "DI400Y = days_before_year 401"

definition DI100Y :: int where
  "DI100Y = days_before_year 101"

definition DI4Y :: int where
  "DI4Y = days_before_year 5"

definition ord2ymd :: "int \<Rightarrow> int \<times> int \<times> int" where
  "ord2ymd n0 =
     (let n = n0 - 1;
          n400 = n div DI400Y; n = n mod DI400Y;
          yr = n400 * 400 + 1;
          n100 = n div DI100Y; n = n mod DI100Y;
          n4 = n div DI4Y; n = n mod DI4Y;
          n1 = n div 365; n = n mod 365;
          yr = yr + (n100 * 100 + n4 * 4 + n1)
      in if n1 = 4 \<or> n100 = 4 then (yr - 1, 12, 31)
         else
           let leapyear = (n1 = 3 \<and> (n4 \<noteq> 24 \<or> n100 = 3));
               mo = (n + 50) div 32;
               preceding = DAYS_BEFORE_MONTH ! nat mo + (if mo > 2 \<and> leapyear then 1 else 0)
           in if preceding > n
              then let mo' = mo - 1;
                       preceding' = preceding
                         - (DAYS_IN_MONTH ! nat mo' + (if mo' = 2 \<and> leapyear then 1 else 0))
                   in (yr, mo', n - preceding' + 1)
              else (yr, mo, n - preceding + 1))"

text \<open>
  \<open>date(year, month, day)\<close>: the constructor checks the fields and raises
  \<open>ValueError\<close> outside the calendar, so every \<open>date\<close> object that exists satisfies
  \<open>valid_date\<close>.
\<close>

definition date_new :: "int \<Rightarrow> int \<Rightarrow> int \<Rightarrow> py_error + date" where
  "date_new y m d =
     (if \<not> (MINYEAR \<le> y \<and> y \<le> MAXYEAR) then Inl ValueError
      else if \<not> (1 \<le> m \<and> m \<le> 12) then Inl ValueError
      else if \<not> (1 \<le> d \<and> d \<le> days_in_month y m) then Inl ValueError
      else Inr \<lparr>year = y, month = m, day = d\<rparr>)"

definition valid_date :: "date \<Rightarrow> bool" where
  "valid_date d = (date_new (year d) (month d) (day d) = Inr d)"

definition toordinal :: "date \<Rightarrow> int" where
  "toordinal d = ymd2ord (year d) (month d) (day d)"

definition fromordinal :: "int \<Rightarrow> date" where
  "fromordinal n = (case ord2ymd n of (y, m, d) \<Rightarrow> \<lparr>year = y, month = m, day = d\<rparr>)"

text \<open>\<open>(a - b).days\<close> for two dates.\<close>

definition date_diff_days :: "date \<Rightarrow> date \<Rightarrow> int" where
  "date_diff_days a b = toordinal a - toordinal b"

text \<open>
  \<open>d - delta\<close> for a date and a timedelta of \<open>days\<close> days: \<open>date.__sub__\<close> adds
  the negated day count to the ordinal and raises \<open>OverflowError\<close> outside
  \<open>1..MAXORDINAL\<close>.  The result is a \<open>datetime.date\<close>.
\<close>

definition date_sub_timedelta :: "date \<Rightarrow> int \<Rightarrow> py_error + date" where
  "date_sub_timedelta d days =
     (let ordinal = toordinal d + (- days)
      in if 0 < ordinal \<and> ordinal \<le> MAXORDINAL then Inr (fromordinal ordinal)
         else Inl OverflowError)"

text \<open>Comparison of dates is the comparison of the triples (year, month, day).\<close>

definition date_le :: "date \<Rightarrow> date \<Rightarrow> bool" where
  "date_le a b =
     (year a < year b \<or>
      (year a = year b \<and> (month a < month b \<or> (month a = month b \<and> day a \<le> day b))))"

subsection \<open>Strings\<close>

text \<open>
  Strings are lists of characters, ordered lexicographically by character code.  This is
  the order of SQLite's BINARY collation on TEXT and of Python's \<open>str\<close> comparison.
  Characters are 8-bit here; code points above 255 are outside the model.
\<close>

definition digit_char :: "nat \<Rightarrow> char" where
  "digit_char n = char_of (48 + n)"

fun decimal :: "nat \<Rightarrow> string" where
  "decimal n = (if n < 10 then [digit_char n] else decimal (n div 10) @ [digit_char (n mod 10)])"

declare decimal.simps [simp del]

text \<open>\<open>"%0wd" % n\<close> for a non-negative \<open>n\<close>.\<close>

definition zero_pad :: "nat \<Rightarrow> nat \<Rightarrow> string" where
  "zero_pad w n = (let s = decimal n in replicate (w - length s) (CHR ''0'') @ s)"

text \<open>
  \<open>date.isoformat()\<close> is \<open>"%04d-%02d-%02d" % (year, month, day)\<close>.  The fields of a
  date object are positive, so the sign branch of the format never runs.
\<close>

definition isoformat :: "date \<Rightarrow> string" where
  "isoformat d =
     zero_pad 4 (nat (year d)) @ ''-'' @ zero_pad 2 (nat (month d)) @ ''-'' @ zero_pad 2 (nat (day d))"

text \<open>
  \<open>str.strip()\<close> removes leading and trailing whitespace: the characters for which
  \<open>str.isspace\<close> holds, here those with a code below 256.
\<close>

definition isspace :: "char \<Rightarrow> bool" where
  "isspace c = (of_char c \<in> {9, 10, 11, 12, 13, 28, 29, 30, 31, 32, 133, 160 :: nat})"

definition strip :: "string \<Rightarrow> string" where
  "strip s = rev (dropWhile isspace (rev (dropWhile isspace s)))"

section \<open>The database\<close>

text \<open>
  The two tables that \<open>init_db\<close> creates.  A table is the list of its rows in insertion
  order.  Both tables have an \<open>INTEGER PRIMARY KEY AUTOINCREMENT\<close>, so SQLite keeps for
  each the largest row id it has ever handed out (table \<open>sqlite_sequence\<close>); the two
  counters are part of the state.  Row ids are unbounded here (SQLite's limit of
  \<open>2^63 - 1\<close> rows is out of reach).
\<close>

record employee =
  e_id :: int
  e_full_name :: string
  e_employee_code :: "string option"
  e_is_active :: int
  e_created_at :: string

record override =
  o_id :: int
  o_employee_id :: int
  o_work_date :: string
  o_status :: string
  o_notes :: "string option"
  o_created_at :: string

record db =
  employees :: "employee list"
  attendance_overrides :: "override list"
  seq_employees :: int
  seq_overrides :: int

text \<open>\<open>init_db\<close> on a new database file: both tables exist and are empty.\<close>

definition init_db :: db where
  "init_db = \<lparr>employees = [], attendance_overrides = [], seq_employees = 0, seq_overrides = 0\<rparr>"

text \<open>
  The row id that an AUTOINCREMENT table gives to a new row: one more than the largest of
  the stored counter and the row ids in the table.
\<close>

definition new_rowid :: "int \<Rightarrow> int list \<Rightarrow> int" where
  "new_rowid sq ids = fold max ids sq + 1"

subsection \<open>Employees\<close>

text \<open>
  \<open>INSERT INTO employees(full_name, employee_code, is_active, created_at) VALUES(?, ?, 1, ?)\<close>.
  \<open>employee_code\<close> is \<open>UNIQUE\<close>; SQL's NULLs are distinct from each other, so only a
  code that is present can collide.  A failed statement changes nothing.
\<close>

definition insert_employee :: "string \<Rightarrow> string option \<Rightarrow> string \<Rightarrow> db \<Rightarrow> py_error + db" where
  "insert_employee name code now s =
     (if code \<noteq> None \<and> code \<in> set (map e_employee_code (employees s))
      then Inl (IntegrityError ''UNIQUE constraint failed: employees.employee_code'')
      else let i = new_rowid (seq_employees s) (map e_id (employees s))
           in Inr (s\<lparr>employees := employees s @
                       [\<lparr>e_id = i, e_full_name = name, e_employee_code = code,
                         e_is_active = 1, e_created_at = now\<rparr>],
                     seq_employees := i\<rparr>))"

text \<open>
  The handler of the button "Tambah" (tab 1): what \<open>st.error\<close> or \<open>st.success\<close>
  shows, and the database afterwards.  Only \<open>sqlite3.IntegrityError\<close> is caught; any
  other exception would leave the handler (\<open>Uncaught\<close>).
\<close>

datatype st_message = St_success string | St_error string | Uncaught py_error

definition add_employee :: "string \<Rightarrow> string \<Rightarrow> string \<Rightarrow> db \<Rightarrow> st_message \<times> db" where
  "add_employee full_name employee_code now s =
     (if strip full_name = [] then (St_error ''Nama tidak boleh kosong.'', s)
      else case insert_employee (strip full_name)
                  (if strip employee_code = [] then None else Some (strip employee_code)) now s of
             Inr s' \<Rightarrow> (St_success ''Karyawan ditambahkan.'', s')
           | Inl (IntegrityError e) \<Rightarrow> (St_error (''Gagal: '' @ e), s)
           | Inl err \<Rightarrow> (Uncaught err, s))"

text \<open>
  The handler of "Simpan status" (tab 1):
  \<open>UPDATE employees SET is_active = ? WHERE id = ?\<close> with
  \<open>1 if new_state == "Aktif" else 0\<close>.
\<close>

definition save_status :: "string \<Rightarrow> int \<Rightarrow> db \<Rightarrow> db" where
  "save_status new_state selected_id s =
     s\<lparr>employees :=
         map (\<lambda>e. if e_id e = selected_id
                   then e\<lparr>e_is_active := (if new_state = ''Aktif'' then 1 else 0)\<rparr> else e)
             (employees s)\<rparr>"

text \<open>
  \<open>get_active_employees\<close>:
  \<open>SELECT id, full_name, employee_code FROM employees WHERE is_active = 1 ORDER BY full_name\<close>.
  SQL leaves the order of rows with the same name open; the model keeps them in table
  order.
\<close>

definition get_active_employees :: "db \<Rightarrow> (int \<times> string \<times> string option) list" where
  "get_active_employees s =
     map (\<lambda>e. (e_id e, e_full_name e, e_employee_code e))
         (sort_key e_full_name (filter (\<lambda>e. e_is_active e = 1) (employees s)))"

subsection \<open>Connection and foreign key\<close>

text \<open>
  \<open>get_conn\<close>: every connection that app.py opens runs \<open>PRAGMA foreign_keys = ON\<close>.
  SQLite enforces foreign keys only on a connection with this setting.
\<close>

record conn =
  foreign_keys :: bool

definition get_conn :: conn where
  "get_conn = \<lparr>foreign_keys = True\<rparr>"

text \<open>
  The foreign key that \<open>init_db\<close> declares on \<open>attendance_overrides\<close>:
  \<open>FOREIGN KEY(employee_id) REFERENCES employees(id) ON DELETE CASCADE\<close>.  SQL knows five
  actions; the schema names \<open>CASCADE\<close>.  The column \<open>employee_id\<close> is \<open>NOT NULL\<close> and has
  no default.
\<close>

datatype on_delete = NO_ACTION | RESTRICT | SET_NULL | SET_DEFAULT | CASCADE

definition employee_id_on_delete :: on_delete where
  "employee_id_on_delete = CASCADE"

text \<open>
  Modelled from the spec: the deletion of an employee, which app.py never issues (it has
  no \<open>DELETE FROM employees\<close>).  The specification describes it: an override holds a
  "reference to exactly one employee (cascade-deleted if employee is removed)", and
  "deleting an employee cascades and removes all their override rows".  The statement is
  \<open>DELETE FROM employees WHERE id = ?\<close>; what it does to the override rows is decided by
  the two things above that are in app.py, the setting of the connection and the action
  of the foreign key.  If no employee has the id, nothing happens.  On a connection
  without \<open>foreign_keys\<close> the override table is not looked at.  With it, \<open>CASCADE\<close>
  deletes the override rows that refer to the employee; \<open>NO ACTION\<close> and \<open>RESTRICT\<close>
  refuse the delete while such rows exist; \<open>SET NULL\<close> and \<open>SET DEFAULT\<close> would store
  NULL in a \<open>NOT NULL\<close> column and fail as well.  A refused statement changes nothing.
\<close>

definition delete_from_employees :: "conn \<Rightarrow> on_delete \<Rightarrow> int \<Rightarrow> db \<Rightarrow> py_error + db" where
  "delete_from_employees c action eid s =
     (let referred = (\<exists>r \<in> set (attendance_overrides s). o_employee_id r = eid);
          without = s\<lparr>employees := filter (\<lambda>e. e_id e \<noteq> eid) (employees s)\<rparr>
      in if eid \<notin> set (map e_id (employees s)) then Inr s
         else if \<not> foreign_keys c then Inr without
         else case action of
                CASCADE \<Rightarrow>
                  Inr (without\<lparr>attendance_overrides :=
                                 filter (\<lambda>r. o_employee_id r \<noteq> eid) (attendance_overrides s)\<rparr>)
              | NO_ACTION \<Rightarrow>
                  if referred then Inl (IntegrityError ''FOREIGN KEY constraint failed'')
                  else Inr without
              | RESTRICT \<Rightarrow>
                  if referred then Inl (IntegrityError ''FOREIGN KEY constraint failed'')
                  else Inr without
              | SET_NULL \<Rightarrow>
                  if referred
                  then Inl (IntegrityError
                         ''NOT NULL constraint failed: attendance_overrides.employee_id'')
                  else Inr without
              | SET_DEFAULT \<Rightarrow>
                  if referred
                  then Inl (IntegrityError
                         ''NOT NULL constraint failed: attendance_overrides.employee_id'')
                  else Inr without)"

text \<open>
  Modelled from the spec: the database after an employee has been deleted through a
  connection of app.py, under the schema of app.py (the state is the old one if the
  statement is refused).
\<close>

definition delete_employee :: "int \<Rightarrow> db \<Rightarrow> db" where
  "delete_employee eid s =
     (case delete_from_employees get_conn employee_id_on_delete eid s of
        Inl err \<Rightarrow> s
      | Inr s' \<Rightarrow> s')"

subsection \<open>Overrides\<close>

text \<open>
  One statement of the loop in \<open>set_libur\<close>:
  \<open>INSERT INTO attendance_overrides(...) VALUES(?, ?, 'LIBUR', ?, ?)
     ON CONFLICT(employee_id, work_date) DO UPDATE SET status='LIBUR', notes=excluded.notes\<close>.
  If a row with the pair exists it is updated in place.  Otherwise a row is inserted,
  which the foreign key refuses when no employee has that id.  SQLite draws the new row id
  before it looks for the conflict, so the counter advances on the update path too; a
  statement that fails is rolled back.
\<close>

definition same_pair :: "int \<Rightarrow> string \<Rightarrow> override \<Rightarrow> bool" where
  "same_pair eid wd r = (o_employee_id r = eid \<and> o_work_date r = wd)"

definition upsert_override :: "int \<Rightarrow> string \<Rightarrow> string \<Rightarrow> string \<Rightarrow> db \<Rightarrow> py_error + db" where
  "upsert_override eid wd notes now s =
     (let i = new_rowid (seq_overrides s) (map o_id (attendance_overrides s))
      in if \<exists>r \<in> set (attendance_overrides s). same_pair eid wd r
         then Inr (s\<lparr>attendance_overrides :=
                       map (\<lambda>r. if same_pair eid wd r
                                 then r\<lparr>o_status := ''LIBUR'', o_notes := Some notes\<rparr> else r)
                           (attendance_overrides s),
                     seq_overrides := i\<rparr>)
         else if eid \<notin> set (map e_id (employees s))
         then Inl (IntegrityError ''FOREIGN KEY constraint failed'')
         else Inr (s\<lparr>attendance_overrides := attendance_overrides s @
                       [\<lparr>o_id = i, o_employee_id = eid, o_work_date = wd, o_status = ''LIBUR'',
                         o_notes = Some notes, o_created_at = now\<rparr>],
                     seq_overrides := i\<rparr>))"

text \<open>
  \<open>set_libur(employee_ids, work_date, notes)\<close>; \<open>now\<close> is the value of
  \<open>datetime.now().isoformat(timespec="seconds")\<close>, read once before the loop.  Every
  statement is committed on its own, so an exception leaves the earlier ones in place:
  the result is the exception, if any, and the database as it then is.
\<close>

fun set_libur_loop :: "int list \<Rightarrow> string \<Rightarrow> string \<Rightarrow> string \<Rightarrow> db \<Rightarrow> py_error option \<times> db" where
  "set_libur_loop [] wd notes now s = (None, s)"
| "set_libur_loop (eid # rest) wd notes now s =
     (case upsert_override eid wd notes now s of
        Inl err \<Rightarrow> (Some err, s)
      | Inr s' \<Rightarrow> set_libur_loop rest wd notes now s')"

definition set_libur :: "int list \<Rightarrow> date \<Rightarrow> string \<Rightarrow> string \<Rightarrow> db \<Rightarrow> py_error option \<times> db" where
  "set_libur employee_ids work_date notes now s =
     set_libur_loop employee_ids (isoformat work_date) notes now s"

text \<open>
  \<open>clear_override\<close>: one
  \<open>DELETE FROM attendance_overrides WHERE employee_id = ? AND work_date = ?\<close> per id.
  No constraint guards a delete from this table, so the statement has no failing branch.
\<close>

definition delete_override :: "int \<Rightarrow> string \<Rightarrow> db \<Rightarrow> db" where
  "delete_override eid wd s =
     s\<lparr>attendance_overrides := filter (\<lambda>r. \<not> same_pair eid wd r) (attendance_overrides s)\<rparr>"

fun clear_override_loop :: "int list \<Rightarrow> string \<Rightarrow> db \<Rightarrow> db" where
  "clear_override_loop [] wd s = s"
| "clear_override_loop (eid # rest) wd s = clear_override_loop rest wd (delete_override eid wd s)"

definition clear_override :: "int list \<Rightarrow> date \<Rightarrow> db \<Rightarrow> db" where
  "clear_override employee_ids work_date s =
     clear_override_loop employee_ids (isoformat work_date) s"

subsection \<open>The report\<close>

record report_row =
  full_name :: string
  employee_code :: "string option"
  total_days :: int
  masuk_days :: int
  libur_days :: int

text \<open>
  \<open>SELECT employee_id, COUNT(*) AS libur_days FROM attendance_overrides
     WHERE work_date BETWEEN ? AND ? GROUP BY employee_id\<close>.
  \<open>work_date\<close> is TEXT, so BETWEEN compares strings.
\<close>

definition libur_counts :: "string \<Rightarrow> string \<Rightarrow> db \<Rightarrow> (int \<times> int) list" where
  "libur_counts lo hi s =
     (let sel = filter (\<lambda>r. lo \<le> o_work_date r \<and> o_work_date r \<le> hi) (attendance_overrides s)
      in map (\<lambda>k. (k, int (length (filter (\<lambda>r. o_employee_id r = k) sel))))
             (remdups (map o_employee_id sel)))"

text \<open>
  \<open>employees.merge(overrides, how="left", left_on="id", right_on="employee_id")\<close>: each
  left row is paired with every right row of the same key, in the order of the left
  frame; a left row without a partner is kept once, with a missing value (NaN).
\<close>

definition merge_left ::
  "(int \<times> string \<times> string option) list \<Rightarrow> (int \<times> int) list
     \<Rightarrow> ((int \<times> string \<times> string option) \<times> int option) list" where
  "merge_left left right =
     concat (map (\<lambda>l. case filter (\<lambda>r. fst r = fst l) right of
                         [] \<Rightarrow> [(l, None)]
                       | ms \<Rightarrow> map (\<lambda>r. (l, Some (snd r))) ms) left)"

text \<open>\<open>fillna(0).astype(int)\<close> on one value.\<close>

definition fillna0 :: "int option \<Rightarrow> int" where
  "fillna0 v = (case v of None \<Rightarrow> 0 | Some n \<Rightarrow> n)"

text \<open>
  \<open>build_report(start_date, end_date)\<close>.  A data frame is the list of its rows; the empty
  frame returned for no active employee is the empty list.  pandas leaves the order of
  rows with equal \<open>full_name\<close> open in \<open>sort_values\<close>; the model keeps them in their
  previous order.
\<close>

definition build_report :: "date \<Rightarrow> date \<Rightarrow> db \<Rightarrow> report_row list" where
  "build_report start_date end_date s =
     (let emps = get_active_employees s
      in if emps = [] then []
         else
           let overrides = libur_counts (isoformat start_date) (isoformat end_date) s;
               total = date_diff_days end_date start_date + 1;
               rep = merge_left emps overrides;
               rep = map (\<lambda>(l, c). (l, fillna0 c)) rep;
               rows = map (\<lambda>((i, n, c), lib).
                             \<lparr>full_name = n, employee_code = c, total_days = total,
                              masuk_days = total - lib, libur_days = lib\<rparr>) rep
           in sort_key full_name rows)"

subsection \<open>Range helpers\<close>

text \<open>
  In \<open>month_range\<close> the first day of the next month is a \<open>datetime.date\<close> and
  \<open>pd.Timedelta\<close> is a subclass of \<open>datetime.timedelta\<close>.  Python tries the left
  operand's \<open>__sub__\<close> first, \<open>date.__sub__\<close> accepts any timedelta instance, and so
  \<open>end\<close> is again a plain \<open>datetime.date\<close>.  That class has no attribute
  \<open>to_pydatetime\<close> (it is a method of \<open>pd.Timestamp\<close>): the lookup raises
  \<open>AttributeError\<close>.
\<close>

definition date_to_pydatetime :: "date \<Rightarrow> py_error + date" where
  "date_to_pydatetime d = Inl AttributeError"

definition month_range :: "int \<Rightarrow> int \<Rightarrow> py_error + (date \<times> date)" where
  "month_range y m =
     (case date_new y m 1 of
        Inl err \<Rightarrow> Inl err
      | Inr start \<Rightarrow>
          (case (if m = 12 then date_new (y + 1) 1 1 else date_new y (m + 1) 1) of
             Inl err \<Rightarrow> Inl err
           | Inr first_of_next \<Rightarrow>
               (case date_sub_timedelta first_of_next 1 of
                  Inl err \<Rightarrow> Inl err
                | Inr end \<Rightarrow>
                    (case date_to_pydatetime end of
                       Inl err \<Rightarrow> Inl err
                     | Inr dt \<Rightarrow> Inr (start, dt)))))"

definition year_range :: "int \<Rightarrow> py_error + (date \<times> date)" where
  "year_range y =
     (case date_new y 1 1 of
        Inl err \<Rightarrow> Inl err
      | Inr start \<Rightarrow>
          (case date_new y 12 31 of
             Inl err \<Rightarrow> Inl err
           | Inr end \<Rightarrow> Inr (start, end)))"

section \<open>Histories of operations\<close>

text \<open>
  The statements that can change the database: the four write paths of app.py (the
  "Tambah" handler, the "Simpan status" handler, \<open>set_libur\<close>, \<open>clear_override\<close>) and the
  deletion of an employee that the specification describes.  A history is a list of them,
  applied to the database that \<open>init_db\<close> has created.  The dates in a history are
  \<open>date\<close> objects, hence valid.
\<close>

datatype op =
    Add_employee string string string
  | Save_status string int
  | Set_libur "int list" date string string
  | Clear_override "int list" date
  | Delete_employee int

fun apply_op :: "op \<Rightarrow> db \<Rightarrow> db" where
  "apply_op (Add_employee name code now) s = snd (add_employee name code now s)"
| "apply_op (Save_status new_state selected_id) s = save_status new_state selected_id s"
| "apply_op (Set_libur ids d notes now) s = snd (set_libur ids d notes now s)"
| "apply_op (Clear_override ids d) s = clear_override ids d s"
| "apply_op (Delete_employee eid) s = delete_employee eid s"

fun op_ok :: "op \<Rightarrow> bool" where
  "op_ok (Set_libur ids d notes now) = valid_date d"
| "op_ok (Clear_override ids d) = valid_date d"
| "op_ok _ = True"

definition run :: "op list \<Rightarrow> db \<Rightarrow> db" where
  "run ops s = foldl (\<lambda>s' x. apply_op x s') s ops"

definition history :: "op list \<Rightarrow> bool" where
  "history ops = list_all op_ok ops"

section \<open>The specification's reading of the data\<close>

text \<open>
  The date that a stored \<open>work_date\<close> text denotes: ten characters \<open>YYYY-MM-DD\<close>.
\<close>

definition is_digit :: "char \<Rightarrow> bool" where
  "is_digit c = (48 \<le> (of_char c :: nat) \<and> (of_char c :: nat) \<le> 57)"

definition digits_value :: "string \<Rightarrow> nat option" where
  "digits_value cs =
     (if cs \<noteq> [] \<and> list_all is_digit cs
      then Some (foldl (\<lambda>a c. 10 * a + (of_char c - 48)) 0 cs) else None)"

definition work_date_of :: "string \<Rightarrow> date option" where
  "work_date_of w =
     (if length w = 10 \<and> w ! 4 = CHR ''-'' \<and> w ! 7 = CHR ''-''
      then (case (digits_value (take 4 w), digits_value (take 2 (drop 5 w)),
                  digits_value (drop 8 w)) of
              (Some y, Some m, Some d) \<Rightarrow> Some \<lparr>year = int y, month = int m, day = int d\<rparr>
            | _ \<Rightarrow> None)
      else None)"

text \<open>An override row whose work date lies in the inclusive range \<open>[lo, hi]\<close>.\<close>

definition override_in_range :: "date \<Rightarrow> date \<Rightarrow> override \<Rightarrow> bool" where
  "override_in_range lo hi r =
     (case work_date_of (o_work_date r) of
        None \<Rightarrow> False
      | Some d \<Rightarrow> date_le lo d \<and> date_le d hi)"

text \<open>
  Section 4.3 of the specification: absent days are the number of override rows of the
  employee with a work date in the range; total days are \<open>(end - start) + 1\<close>; present
  days are total days minus absent days.
\<close>

definition spec_absent_days :: "db \<Rightarrow> int \<Rightarrow> date \<Rightarrow> date \<Rightarrow> int" where
  "spec_absent_days s eid lo hi =
     int (length (filter (\<lambda>r. o_employee_id r = eid \<and> override_in_range lo hi r)
                         (attendance_overrides s)))"

definition spec_report_row :: "db \<Rightarrow> date \<Rightarrow> date \<Rightarrow> employee \<Rightarrow> report_row" where
  "spec_report_row s lo hi e =
     (let total = date_diff_days hi lo + 1;
          absent = spec_absent_days s (e_id e) lo hi
      in \<lparr>full_name = e_full_name e, employee_code = e_employee_code e,
          total_days = total, masuk_days = total - absent, libur_days = absent\<rparr>)"

section \<open>Invariants and auxiliary notions\<close>

text \<open>The invariants of the override table.\<close>

definition pair_of :: "override \<Rightarrow> int \<times> string" where
  "pair_of r = (o_employee_id r, o_work_date r)"

definition pairs_unique :: "db \<Rightarrow> bool" where
  "pairs_unique s = distinct (map pair_of (attendance_overrides s))"

definition refs_exist :: "db \<Rightarrow> bool" where
  "refs_exist s =
     list_all (\<lambda>r. o_employee_id r \<in> set (map e_id (employees s))) (attendance_overrides s)"

definition dates_iso :: "db \<Rightarrow> bool" where
  "dates_iso s =
     list_all (\<lambda>r. case work_date_of (o_work_date r) of
                      None \<Rightarrow> False
                    | Some d \<Rightarrow> valid_date d \<and> o_work_date r = isoformat d)
              (attendance_overrides s)"

text \<open>
  The table holds exactly one row for the pair, and that row carries the given note.
\<close>

definition one_row :: "int \<Rightarrow> string \<Rightarrow> string \<Rightarrow> db \<Rightarrow> bool" where
  "one_row eid wd nts s =
     (case filter (same_pair eid wd) (attendance_overrides s) of
        [r] \<Rightarrow> o_notes r = Some nts \<and> o_status r = ''LIBUR''
      | _ \<Rightarrow> False)"

text \<open>
  The number of override rows of an employee whose stored text lies between two texts:
  what the aggregate query of \<open>build_report\<close> counts.
\<close>

definition text_count :: "string \<Rightarrow> string \<Rightarrow> db \<Rightarrow> int \<Rightarrow> int" where
  "text_count lo hi s k =
     int (length (filter (\<lambda>r. o_employee_id r = k \<and> lo \<le> o_work_date r \<and> o_work_date r \<le> hi)
                         (attendance_overrides s)))"

text \<open>
  Every employee id has been handed out by the AUTOINCREMENT counter; and the condition
  under which an employee id stays out of the reports: no row with that id is active, and
  the counter has passed the id, so that no new employee can get it.
\<close>

definition ids_bounded :: "db \<Rightarrow> bool" where
  "ids_bounded s = list_all (\<lambda>e. e_id e \<le> seq_employees s) (employees s)"

definition stays_inactive :: "int \<Rightarrow> db \<Rightarrow> bool" where
  "stays_inactive eid s =
     (list_all (\<lambda>e. e_id e = eid \<longrightarrow> e_is_active e \<noteq> 1) (employees s) \<and> eid \<le> seq_employees s)"

text \<open>The \<open>UNIQUE\<close> constraint on \<open>employee_code\<close>: the codes that are present are distinct.\<close>

definition codes_unique :: "db \<Rightarrow> bool" where
  "codes_unique s = distinct (filter (\<lambda>c. c \<noteq> None) (map e_employee_code (employees s)))"

section \<open>An example history\<close>

text \<open>A small history used to instantiate the theorems below.\<close>

definition demo_ops :: "op list" where
  "demo_ops =
     [Add_employee ''Budi'' '' E1 '' ''2024-01-02T08:00:00'',
      Add_employee ''Andi'' [] ''2024-01-02T08:01:00'',
      Set_libur [1, 2] \<lparr>year = 2024, month = 1, day = 5\<rparr> ''cuti'' ''2024-01-03T09:00:00'',
      Set_libur [1] \<lparr>year = 2024, month = 1, day = 9\<rparr> ''izin'' ''2024-01-08T09:00:00'',
      Set_libur [1] \<lparr>year = 2024, month = 2, day = 1\<rparr> ''izin'' ''2024-01-30T09:00:00'']"

section \<open>Decimal digits and ISO dates\<close>

lemma of_char_digit_char: "n < 10 \<Longrightarrow> (of_char (digit_char n) :: nat) = 48 + n"
  by (simp add: digit_char_def)

lemma digit_char_less: "a < 10 \<Longrightarrow> b < 10 \<Longrightarrow> (digit_char a < digit_char b) = (a < b)"
  by (simp add: less_char_def of_char_digit_char)

lemma digit_char_eq:
  assumes "a < 10" "b < 10"
  shows "(digit_char a = digit_char b) = (a = b)"
proof
  assume h: "digit_char a = digit_char b"
  have "(of_char (digit_char a) :: nat) = of_char (digit_char b)" by (simp only: h)
  then have "48 + a = 48 + b" by (simp only: of_char_digit_char[OF assms(1)] of_char_digit_char[OF assms(2)])
  then show "a = b" by simp
next
  assume "a = b" then show "digit_char a = digit_char b" by simp
qed

lemma digit_char_0: "CHR ''0'' = digit_char 0"
  by code_simp

lemma of_char_dash: "(of_char (CHR ''-'') :: nat) = 45"
  by code_simp

lemma digit_char_not_dash:
  assumes "n < 10" shows "digit_char n \<noteq> CHR ''-''"
proof
  assume h: "digit_char n = CHR ''-''"
  have "(of_char (digit_char n) :: nat) = of_char (CHR ''-'')" by (simp only: h)
  then have "48 + n = 45" by (simp only: of_char_digit_char[OF assms] of_char_dash)
  then show False by simp
qed

lemma is_digit_digit_char: "n < 10 \<Longrightarrow> is_digit (digit_char n)"
  by (simp add: is_digit_def of_char_digit_char)

lemma decimal_small: "n < 10 \<Longrightarrow> decimal n = [digit_char n]"
  by (subst decimal.simps) simp

lemma decimal_step: "\<not> n < 10 \<Longrightarrow> decimal n = decimal (n div 10) @ [digit_char (n mod 10)]"
  by (subst decimal.simps) simp

lemma zero_pad_2: 
  assumes "n < 100" shows "zero_pad 2 n = [digit_char (n div 10), digit_char (n mod 10)]"
proof (cases "n < 10")
  case True
  then have "decimal n = [digit_char n]" by (rule decimal_small)
  then have "zero_pad 2 n = [CHR ''0'', digit_char n]"
    by (simp add: zero_pad_def numeral_2_eq_2)
  with True show ?thesis by (simp add: digit_char_0)
next
  case False
  with assms have "n div 10 < 10" by simp
  then have "decimal n = [digit_char (n div 10), digit_char (n mod 10)]"
    using False by (simp add: decimal_step decimal_small)
  then show ?thesis by (simp add: zero_pad_def)
qed

lemma decimal_4:
  assumes "n < 10000"
  shows "replicate (4 - length (decimal n)) (digit_char 0) @ decimal n =
    [digit_char (n div 1000), digit_char (n div 100 mod 10), digit_char (n div 10 mod 10),
     digit_char (n mod 10)]"
proof -
  have d: "n div 10 div 10 = n div 100" "n div 100 div 10 = n div 1000"
    by (simp_all add: div_mult2_eq[symmetric])
  have r: "replicate 3 x = [x, x, x]" "replicate 2 x = [x, x]" for x :: char
    by (simp_all add: numeral_3_eq_3 numeral_2_eq_2)
  consider "n < 10" | "10 \<le> n" "n < 100" | "100 \<le> n" "n < 1000" | "1000 \<le> n" by linarith
  then show ?thesis
  proof cases
    case 1
    then have "decimal n = [digit_char n]" by (rule decimal_small)
    with 1 show ?thesis by (simp add: r)
  next
    case 2
    then have "n div 10 < 10" "n div 100 = 0" "n div 1000 = 0" "\<not> n < 10" by simp_all
    then have "decimal n = [digit_char (n div 10), digit_char (n mod 10)]"
      by (simp add: decimal_step decimal_small)
    with \<open>n div 10 < 10\<close> \<open>n div 100 = 0\<close> \<open>n div 1000 = 0\<close> show ?thesis by (simp add: r)
  next
    case 3
    then have h: "\<not> n < 10" "\<not> n div 10 < 10" "n div 100 < 10" "n div 1000 = 0" by simp_all
    have "decimal (n div 10) = [digit_char (n div 100), digit_char (n div 10 mod 10)]"
      using h by (simp add: decimal_step[of "n div 10"] decimal_small d)
    then have "decimal n = [digit_char (n div 100), digit_char (n div 10 mod 10), digit_char (n mod 10)]"
      using h by (simp add: decimal_step[of n])
    with h show ?thesis by simp
  next
    case 4
    with assms have h: "\<not> n < 10" "\<not> n div 10 < 10" "\<not> n div 100 < 10" "n div 1000 < 10" by simp_all
    have "decimal (n div 100) = [digit_char (n div 1000), digit_char (n div 100 mod 10)]"
      using h by (simp add: decimal_step[of "n div 100"] decimal_small d)
    then have "decimal (n div 10) = [digit_char (n div 1000), digit_char (n div 100 mod 10), digit_char (n div 10 mod 10)]"
      using h by (simp add: decimal_step[of "n div 10"] d)
    then have "decimal n = [digit_char (n div 1000), digit_char (n div 100 mod 10), digit_char (n div 10 mod 10), digit_char (n mod 10)]"
      using h by (simp add: decimal_step[of n])
    then show ?thesis by simp
  qed
qed

lemma zero_pad_4:
  "n < 10000 \<Longrightarrow> zero_pad 4 n =
    [digit_char (n div 1000), digit_char (n div 100 mod 10), digit_char (n div 10 mod 10),
     digit_char (n mod 10)]"
  using decimal_4[of n] by (simp only: zero_pad_def Let_def digit_char_0)

lemma digits2_less:
  "((a::nat) div 10 < b div 10 \<or> a div 10 = b div 10 \<and> a mod 10 < b mod 10) = (a < b)"
proof -
  define qa ra qb rb where defs: "qa = a div 10" "ra = a mod 10" "qb = b div 10" "rb = b mod 10"
  have "a = 10 * qa + ra" "ra < 10" "b = 10 * qb + rb" "rb < 10"
    by (simp_all add: defs)
  then have "(qa < qb \<or> qa = qb \<and> ra < rb) = (a < b)"
    by arith
  then show ?thesis by (simp only: defs)
qed

lemma digits2_eq: "((a::nat) div 10 = b div 10 \<and> a mod 10 = b mod 10) = (a = b)"
proof
  assume h: "a div 10 = b div 10 \<and> a mod 10 = b mod 10"
  have "a = a div 10 * 10 + a mod 10" by simp
  also have "\<dots> = b div 10 * 10 + b mod 10" using h by simp
  also have "\<dots> = b" by simp
  finally show "a = b" .
next
  assume "a = b"
  then show "a div 10 = b div 10 \<and> a mod 10 = b mod 10" by simp
qed

lemma digits4_eq:
  "((a::nat) div 1000 = b div 1000 \<and> a div 100 mod 10 = b div 100 mod 10 \<and>
    a div 10 mod 10 = b div 10 mod 10 \<and> a mod 10 = b mod 10) = (a = b)"
proof -
  have d: "a div 10 div 10 = a div 100" "a div 100 div 10 = a div 1000"
       "b div 10 div 10 = b div 100" "b div 100 div 10 = b div 1000"
    by (simp_all add: div_mult2_eq[symmetric])
  have 1: "(a = b) = (a div 10 = b div 10 \<and> a mod 10 = b mod 10)"
    by (rule digits2_eq[symmetric])
  have 2: "(a div 10 = b div 10) = (a div 100 = b div 100 \<and> a div 10 mod 10 = b div 10 mod 10)"
    using digits2_eq[of "a div 10" "b div 10"] by (simp only: d)
  have 3: "(a div 100 = b div 100) = (a div 1000 = b div 1000 \<and> a div 100 mod 10 = b div 100 mod 10)"
    using digits2_eq[of "a div 100" "b div 100"] by (simp only: d)
  show ?thesis
    by (subst 1, subst 2, subst 3) blast
qed

lemma digits4_less:
  "((a::nat) div 1000 < b div 1000 \<or> a div 1000 = b div 1000 \<and>
     (a div 100 mod 10 < b div 100 mod 10 \<or> a div 100 mod 10 = b div 100 mod 10 \<and>
       (a div 10 mod 10 < b div 10 mod 10 \<or> a div 10 mod 10 = b div 10 mod 10 \<and>
         a mod 10 < b mod 10))) = (a < b)"
proof -
  have d: "a div 10 div 10 = a div 100" "a div 100 div 10 = a div 1000"
       "b div 10 div 10 = b div 100" "b div 100 div 10 = b div 1000"
    by (simp_all add: div_mult2_eq[symmetric])
  have 1: "(a < b) = (a div 10 < b div 10 \<or> a div 10 = b div 10 \<and> a mod 10 < b mod 10)"
    by (rule digits2_less[symmetric])
  have 2: "(a div 10 < b div 10) = (a div 100 < b div 100 \<or> a div 100 = b div 100 \<and> a div 10 mod 10 < b div 10 mod 10)"
    using digits2_less[of "a div 10" "b div 10"] by (simp only: d)
  have 3: "(a div 100 < b div 100) = (a div 1000 < b div 1000 \<or> a div 1000 = b div 1000 \<and> a div 100 mod 10 < b div 100 mod 10)"
    using digits2_less[of "a div 100" "b div 100"] by (simp only: d)
  have 4: "(a div 10 = b div 10) = (a div 100 = b div 100 \<and> a div 10 mod 10 = b div 10 mod 10)"
    using digits2_eq[of "a div 10" "b div 10"] by (simp only: d)
  have 5: "(a div 100 = b div 100) = (a div 1000 = b div 1000 \<and> a div 100 mod 10 = b div 100 mod 10)"
    using digits2_eq[of "a div 100" "b div 100"] by (simp only: d)
  show ?thesis
    apply (subst 1, subst 2, subst 3, subst 4)
    apply (simp only: 5)
    apply blast
    done
qed

lemma lex_append_less:
  fixes xs ys :: "'a::linorder list"
  shows "length xs = length ys \<Longrightarrow> (xs @ us < ys @ vs) = (xs < ys \<or> xs = ys \<and> us < vs)"
  by (induction xs ys rule: list_induct2) auto

lemma lex_append_le:
  fixes xs ys :: "'a::linorder list"
  shows "length xs = length ys \<Longrightarrow> (xs @ us \<le> ys @ vs) = (xs < ys \<or> xs = ys \<and> us \<le> vs)"
  by (induction xs ys rule: list_induct2) auto

lemma zero_pad_4_less:
  assumes "a < 10000" "b < 10000"
  shows "(zero_pad 4 a < zero_pad 4 b) = (a < b)"
proof -
  have ba: "a div 1000 < 10" "a div 100 mod 10 < 10" "a div 10 mod 10 < 10" "a mod 10 < 10"
    using assms by simp_all
  have bb: "b div 1000 < 10" "b div 100 mod 10 < 10" "b div 10 mod 10 < 10" "b mod 10 < 10"
    using assms by simp_all
  show ?thesis
    apply (simp only: zero_pad_4[OF assms(1)] zero_pad_4[OF assms(2)] Cons_less_Cons not_less_Nil
        digit_char_less[OF ba(1) bb(1)] digit_char_less[OF ba(2) bb(2)]
        digit_char_less[OF ba(3) bb(3)] digit_char_less[OF ba(4) bb(4)]
        digit_char_eq[OF ba(1) bb(1)] digit_char_eq[OF ba(2) bb(2)]
        digit_char_eq[OF ba(3) bb(3)] digit_char_eq[OF ba(4) bb(4)] simp_thms)
    apply (rule digits4_less)
    done
qed

lemma zero_pad_4_eq:
  assumes "a < 10000" "b < 10000"
  shows "(zero_pad 4 a = zero_pad 4 b) = (a = b)"
proof -
  have ba: "a div 1000 < 10" "a div 100 mod 10 < 10" "a div 10 mod 10 < 10" "a mod 10 < 10"
    using assms by simp_all
  have bb: "b div 1000 < 10" "b div 100 mod 10 < 10" "b div 10 mod 10 < 10" "b mod 10 < 10"
    using assms by simp_all
  show ?thesis
    apply (simp only: zero_pad_4[OF assms(1)] zero_pad_4[OF assms(2)] list.inject
        digit_char_eq[OF ba(1) bb(1)] digit_char_eq[OF ba(2) bb(2)]
        digit_char_eq[OF ba(3) bb(3)] digit_char_eq[OF ba(4) bb(4)] simp_thms)
    apply (rule digits4_eq)
    done
qed

lemma zero_pad_2_less:
  assumes "a < 100" "b < 100"
  shows "(zero_pad 2 a < zero_pad 2 b) = (a < b)"
proof -
  have ba: "a div 10 < 10" "a mod 10 < 10" using assms by simp_all
  have bb: "b div 10 < 10" "b mod 10 < 10" using assms by simp_all
  show ?thesis
    apply (simp only: zero_pad_2[OF assms(1)] zero_pad_2[OF assms(2)] Cons_less_Cons not_less_Nil
        digit_char_less[OF ba(1) bb(1)] digit_char_less[OF ba(2) bb(2)]
        digit_char_eq[OF ba(1) bb(1)] digit_char_eq[OF ba(2) bb(2)] simp_thms)
    apply (rule digits2_less)
    done
qed

lemma zero_pad_2_eq:
  assumes "a < 100" "b < 100"
  shows "(zero_pad 2 a = zero_pad 2 b) = (a = b)"
proof -
  have ba: "a div 10 < 10" "a mod 10 < 10" using assms by simp_all
  have bb: "b div 10 < 10" "b mod 10 < 10" using assms by simp_all
  show ?thesis
    apply (simp only: zero_pad_2[OF assms(1)] zero_pad_2[OF assms(2)] list.inject
        digit_char_eq[OF ba(1) bb(1)] digit_char_eq[OF ba(2) bb(2)] simp_thms)
    apply (rule digits2_eq)
    done
qed

lemma length_zero_pad_4: "n < 10000 \<Longrightarrow> length (zero_pad 4 n) = 4"
  by (simp only: zero_pad_4) simp

lemma length_zero_pad_2: "n < 100 \<Longrightarrow> length (zero_pad 2 n) = 2"
  by (simp only: zero_pad_2) simp

lemma days_in_month_le_31:
  assumes "1 \<le> m" "m \<le> 12"
  shows "days_in_month y m \<le> 31"
proof -
  from assms have "m = 1 \<or> m = 2 \<or> m = 3 \<or> m = 4 \<or> m = 5 \<or> m = 6 \<or> m = 7 \<or> m = 8 \<or> m = 9 \<or>
    m = 10 \<or> m = 11 \<or> m = 12" by arith
  then show ?thesis
    by (elim disjE) (simp_all add: days_in_month_def DAYS_IN_MONTH_def)
qed

lemma valid_date_bounds:
  assumes "valid_date d"
  shows "1 \<le> year d" "year d \<le> 9999" "1 \<le> month d" "month d \<le> 12" "1 \<le> day d" "day d \<le> 31"
proof -
  from assms have h: "1 \<le> year d \<and> year d \<le> 9999 \<and> 1 \<le> month d \<and> month d \<le> 12 \<and>
      1 \<le> day d \<and> day d \<le> days_in_month (year d) (month d)"
    by (simp add: valid_date_def date_new_def MINYEAR_def MAXYEAR_def split: if_splits)
  then show "1 \<le> year d" "year d \<le> 9999" "1 \<le> month d" "month d \<le> 12" "1 \<le> day d"
    by simp_all
  from h days_in_month_le_31[of "month d" "year d"] show "day d \<le> 31" by simp
qed

lemma valid_date_nat_bounds:
  assumes "valid_date d"
  shows "nat (year d) < 10000" "nat (month d) < 100" "nat (day d) < 100"
  using valid_date_bounds[OF assms] by simp_all

lemma zero_pad_2_le:
  assumes "a < 100" "b < 100"
  shows "(zero_pad 2 a \<le> zero_pad 2 b) = (a \<le> b)"
proof -
  have "(zero_pad 2 a \<le> zero_pad 2 b) = (zero_pad 2 a < zero_pad 2 b \<or> zero_pad 2 a = zero_pad 2 b)"
    by (rule le_less)
  also have "\<dots> = (a < b \<or> a = b)"
    by (simp only: zero_pad_2_less[OF assms] zero_pad_2_eq[OF assms])
  also have "\<dots> = (a \<le> b)" by (rule le_less[symmetric])
  finally show ?thesis .
qed

lemma isoformat_le:
  assumes "valid_date a" "valid_date b"
  shows "(isoformat a \<le> isoformat b) = date_le a b"
proof -
  note na = valid_date_nat_bounds[OF assms(1)]
  note nb = valid_date_nat_bounds[OF assms(2)]
  have L4: "length (zero_pad 4 (nat (year a))) = length (zero_pad 4 (nat (year b)))"
    by (simp only: length_zero_pad_4[OF na(1)] length_zero_pad_4[OF nb(1)])
  have L2: "length (zero_pad 2 (nat (month a))) = length (zero_pad 2 (nat (month b)))"
    by (simp only: length_zero_pad_2[OF na(2)] length_zero_pad_2[OF nb(2)])
  have "(isoformat a \<le> isoformat b) =
      (nat (year a) < nat (year b) \<or> nat (year a) = nat (year b) \<and>
        (nat (month a) < nat (month b) \<or> nat (month a) = nat (month b) \<and>
          nat (day a) \<le> nat (day b)))"
    by (simp only: isoformat_def lex_append_le[OF L4] lex_append_le[OF L2] append_Cons append_Nil
        Cons_le_Cons less_irrefl simp_thms
        zero_pad_4_less[OF na(1) nb(1)] zero_pad_4_eq[OF na(1) nb(1)]
        zero_pad_2_less[OF na(2) nb(2)] zero_pad_2_eq[OF na(2) nb(2)]
        zero_pad_2_le[OF na(3) nb(3)])
  also have "\<dots> = date_le a b"
    using valid_date_bounds[OF assms(1)] valid_date_bounds[OF assms(2)]
    by (simp add: date_le_def nat_less_eq_zless nat_le_eq_zle eq_nat_nat_iff)
  finally show ?thesis .
qed

lemma digits_value_2:
  "a < 10 \<Longrightarrow> b < 10 \<Longrightarrow> digits_value [digit_char a, digit_char b] = Some (10 * a + b)"
  by (simp add: digits_value_def is_digit_digit_char of_char_digit_char)

lemma digits_value_4:
  "a < 10 \<Longrightarrow> b < 10 \<Longrightarrow> c < 10 \<Longrightarrow> e < 10 \<Longrightarrow>
   digits_value [digit_char a, digit_char b, digit_char c, digit_char e] =
     Some (1000 * a + 100 * b + 10 * c + e)"
  by (simp add: digits_value_def is_digit_digit_char of_char_digit_char)

lemma digits2_sum: "10 * ((n::nat) div 10) + n mod 10 = n"
  by simp

lemma digits4_sum:
  "1000 * ((n::nat) div 1000) + 100 * (n div 100 mod 10) + 10 * (n div 10 mod 10) + n mod 10 = n"
proof -
  have d: "n div 10 div 10 = n div 100" "n div 100 div 10 = n div 1000"
    by (simp_all add: div_mult2_eq[symmetric])
  have 1: "n = 10 * (n div 10) + n mod 10" by simp
  have 2: "n div 10 = 10 * (n div 100) + n div 10 mod 10"
    using digits2_sum[of "n div 10"] by (simp only: d)
  have 3: "n div 100 = 10 * (n div 1000) + n div 100 mod 10"
    using digits2_sum[of "n div 100"] by (simp only: d)
  have "n = 10 * (10 * (10 * (n div 1000) + n div 100 mod 10) + n div 10 mod 10) + n mod 10"
    using 1 2 3 by presburger
  then show ?thesis by simp
qed

lemma isoformat_explicit:
  assumes "valid_date d"
  shows "isoformat d =
    [digit_char (nat (year d) div 1000), digit_char (nat (year d) div 100 mod 10),
     digit_char (nat (year d) div 10 mod 10), digit_char (nat (year d) mod 10), CHR ''-'',
     digit_char (nat (month d) div 10), digit_char (nat (month d) mod 10), CHR ''-'',
     digit_char (nat (day d) div 10), digit_char (nat (day d) mod 10)]"
  using valid_date_nat_bounds[OF assms]
  by (simp only: isoformat_def zero_pad_4 zero_pad_2 append_Cons append_Nil)

lemma list10_parts:
  "length [a0, a1, a2, a3, a4, a5, a6, a7, a8, a9] = 10"
  "[a0, a1, a2, a3, a4, a5, a6, a7, a8, a9] ! 4 = a4"
  "[a0, a1, a2, a3, a4, a5, a6, a7, a8, a9] ! 7 = a7"
  "take 4 [a0, a1, a2, a3, a4, a5, a6, a7, a8, a9] = [a0, a1, a2, a3]"
  "take 2 (drop 5 [a0, a1, a2, a3, a4, a5, a6, a7, a8, a9]) = [a5, a6]"
  "drop 8 [a0, a1, a2, a3, a4, a5, a6, a7, a8, a9] = [a8, a9]"
  by simp_all

lemma work_date_of_isoformat:
  assumes "valid_date d"
  shows "work_date_of (isoformat d) = Some d"
proof -
  note n = valid_date_nat_bounds[OF assms]
  note b = valid_date_bounds[OF assms]
  have dy: "nat (year d) div 1000 < 10" "nat (year d) div 100 mod 10 < 10"
    "nat (year d) div 10 mod 10 < 10" "nat (year d) mod 10 < 10"
    using n(1) by simp_all
  have dm: "nat (month d) div 10 < 10" "nat (month d) mod 10 < 10"
    using n(2) by simp_all
  have dd: "nat (day d) div 10 < 10" "nat (day d) mod 10 < 10"
    using n(3) by simp_all
  have "work_date_of (isoformat d) =
      Some \<lparr>year = int (nat (year d)), month = int (nat (month d)), day = int (nat (day d))\<rparr>"
    by (simp only: work_date_of_def isoformat_explicit[OF assms] list10_parts
        digits_value_4[OF dy] digits_value_2[OF dm] digits_value_2[OF dd]
        digits4_sum digits2_sum simp_thms if_True prod.case option.case)
  also have "\<dots> = Some d" using b by simp
  finally show ?thesis .
qed

lemma isoformat_inj:
  assumes "valid_date a" "valid_date b" "isoformat a = isoformat b"
  shows "a = b"
proof -
  have "Some a = work_date_of (isoformat a)" by (simp only: work_date_of_isoformat[OF assms(1)])
  also have "\<dots> = work_date_of (isoformat b)" by (simp only: assms(3))
  also have "\<dots> = Some b" by (simp only: work_date_of_isoformat[OF assms(2)])
  finally show ?thesis by simp
qed

section \<open>Effect of the statements on the tables\<close>

lemma delete_from_employees_cascade:
  "delete_from_employees get_conn employee_id_on_delete eid s =
     Inr (if eid \<in> set (map e_id (employees s))
          then s\<lparr>employees := filter (\<lambda>e. e_id e \<noteq> eid) (employees s),
                 attendance_overrides :=
                   filter (\<lambda>r. o_employee_id r \<noteq> eid) (attendance_overrides s)\<rparr>
          else s)"
  by (simp add: delete_from_employees_def get_conn_def employee_id_on_delete_def Let_def)

lemma delete_employee_eq:
  "delete_employee eid s =
     (if eid \<in> set (map e_id (employees s))
      then s\<lparr>employees := filter (\<lambda>e. e_id e \<noteq> eid) (employees s),
             attendance_overrides :=
               filter (\<lambda>r. o_employee_id r \<noteq> eid) (attendance_overrides s)\<rparr>
      else s)"
  by (simp only: delete_employee_def delete_from_employees_cascade sum.case)

lemma delete_without_foreign_keys:
  "delete_from_employees \<lparr>foreign_keys = False\<rparr> action eid s = Inr s' \<Longrightarrow>
   attendance_overrides s' = attendance_overrides s"
  by (auto simp: delete_from_employees_def Let_def split: if_splits)

lemma delete_without_cascade:
  assumes "action \<noteq> CASCADE" "eid \<in> set (map e_id (employees s))"
    "\<exists>r \<in> set (attendance_overrides s). o_employee_id r = eid"
  shows "\<exists>err. delete_from_employees get_conn action eid s = Inl err"
  using assms by (cases action) (simp_all add: delete_from_employees_def get_conn_def Let_def)

lemma add_employee_overrides:
  "attendance_overrides (snd (add_employee name code now s)) = attendance_overrides s"
  by (simp add: add_employee_def insert_employee_def Let_def split: sum.splits py_error.splits)

lemma add_employee_employees:
  "employees (snd (add_employee name code now s)) = employees s \<or>
   (\<exists>e. employees (snd (add_employee name code now s)) = employees s @ [e])"
  by (simp add: add_employee_def insert_employee_def Let_def split: sum.splits py_error.splits)

lemma save_status_overrides:
  "attendance_overrides (save_status new_state selected_id s) = attendance_overrides s"
  by (simp add: save_status_def)

lemma save_status_ids:
  "map e_id (employees (save_status new_state selected_id s)) = map e_id (employees s)"
  by (simp add: save_status_def o_def)

lemma upsert_employees:
  "upsert_override eid wd notes now s = Inr s' \<Longrightarrow> employees s' = employees s"
  by (auto simp: upsert_override_def Let_def split: if_splits)

lemma upsert_overrides:
  assumes "upsert_override eid wd notes now s = Inr s'"
  shows "(\<exists>r \<in> set (attendance_overrides s). same_pair eid wd r) \<and>
           attendance_overrides s' =
             map (\<lambda>r. if same_pair eid wd r then r\<lparr>o_status := ''LIBUR'', o_notes := Some notes\<rparr> else r)
                 (attendance_overrides s)
         \<or>
         \<not> (\<exists>r \<in> set (attendance_overrides s). same_pair eid wd r) \<and>
           eid \<in> set (map e_id (employees s)) \<and>
           attendance_overrides s' = attendance_overrides s @
             [\<lparr>o_id = new_rowid (seq_overrides s) (map o_id (attendance_overrides s)),
               o_employee_id = eid, o_work_date = wd, o_status = ''LIBUR'',
               o_notes = Some notes, o_created_at = now\<rparr>]"
proof (cases "\<exists>r \<in> set (attendance_overrides s). same_pair eid wd r")
  case True
  with assms have "s' = s\<lparr>attendance_overrides :=
      map (\<lambda>r. if same_pair eid wd r then r\<lparr>o_status := ''LIBUR'', o_notes := Some notes\<rparr> else r)
          (attendance_overrides s),
      seq_overrides := new_rowid (seq_overrides s) (map o_id (attendance_overrides s))\<rparr>"
    by (simp add: upsert_override_def Let_def)
  then have "attendance_overrides s' =
      map (\<lambda>r. if same_pair eid wd r then r\<lparr>o_status := ''LIBUR'', o_notes := Some notes\<rparr> else r)
          (attendance_overrides s)"
    by simp
  with True show ?thesis by blast
next
  case False
  with assms have in_emp: "eid \<in> set (map e_id (employees s))"
    by (simp add: upsert_override_def Let_def split: if_splits)
  with assms False have "s' = s\<lparr>attendance_overrides := attendance_overrides s @
             [\<lparr>o_id = new_rowid (seq_overrides s) (map o_id (attendance_overrides s)),
               o_employee_id = eid, o_work_date = wd, o_status = ''LIBUR'',
               o_notes = Some notes, o_created_at = now\<rparr>],
      seq_overrides := new_rowid (seq_overrides s) (map o_id (attendance_overrides s))\<rparr>"
    by (simp add: upsert_override_def Let_def)
  then have "attendance_overrides s' = attendance_overrides s @
             [\<lparr>o_id = new_rowid (seq_overrides s) (map o_id (attendance_overrides s)),
               o_employee_id = eid, o_work_date = wd, o_status = ''LIBUR'',
               o_notes = Some notes, o_created_at = now\<rparr>]"
    by simp
  with False in_emp show ?thesis by blast
qed

lemma set_libur_loop_employees:
  "employees (snd (set_libur_loop ids wd notes now s)) = employees s"
proof (induction ids arbitrary: s)
  case Nil
  show ?case by simp
next
  case (Cons eid rest)
  show ?case
  proof (cases "upsert_override eid wd notes now s")
    case (Inl err)
    then show ?thesis by simp
  next
    case (Inr s')
    then show ?thesis using Cons.IH[of s'] upsert_employees[OF Inr] by simp
  qed
qed

lemma set_libur_loop_invariant:
  assumes "P s"
    and "\<And>eid s s'. P s \<Longrightarrow> upsert_override eid wd notes now s = Inr s' \<Longrightarrow> P s'"
  shows "P (snd (set_libur_loop ids wd notes now s))"
  using assms(1)
proof (induction ids arbitrary: s)
  case Nil
  then show ?case by simp
next
  case (Cons eid rest)
  show ?case
  proof (cases "upsert_override eid wd notes now s")
    case (Inl err)
    with Cons.prems show ?thesis by simp
  next
    case (Inr s')
    have "P s'" using assms(2)[OF Cons.prems Inr] .
    from Cons.IH[OF this] Inr show ?thesis by simp
  qed
qed

lemma clear_override_loop_overrides:
  "attendance_overrides (clear_override_loop ids wd s) =
     filter (\<lambda>r. \<not> (o_employee_id r \<in> set ids \<and> o_work_date r = wd)) (attendance_overrides s)"
proof (induction ids arbitrary: s)
  case Nil
  show ?case by simp
next
  case (Cons eid rest)
  have "filter (\<lambda>r. \<not> (o_employee_id r \<in> set rest \<and> o_work_date r = wd))
          (filter (\<lambda>r. \<not> same_pair eid wd r) xs) =
        filter (\<lambda>r. \<not> (o_employee_id r \<in> set (eid # rest) \<and> o_work_date r = wd)) xs" for xs
    by (induction xs) (simp_all add: same_pair_def)
  moreover have "attendance_overrides (delete_override eid wd s) =
      filter (\<lambda>r. \<not> same_pair eid wd r) (attendance_overrides s)"
    by (simp add: delete_override_def)
  ultimately show ?case
    by (simp only: clear_override_loop.simps Cons.IH)
qed

lemma clear_override_loop_rest:
  "employees (clear_override_loop ids wd s) = employees s"
  "seq_employees (clear_override_loop ids wd s) = seq_employees s"
  "seq_overrides (clear_override_loop ids wd s) = seq_overrides s"
  by (induction ids arbitrary: s) (simp_all add: delete_override_def)

lemma clear_override_loop_eq:
  "clear_override_loop ids wd s =
     s\<lparr>attendance_overrides :=
         filter (\<lambda>r. \<not> (o_employee_id r \<in> set ids \<and> o_work_date r = wd)) (attendance_overrides s)\<rparr>"
  by (rule db.equality) (simp_all add: clear_override_loop_overrides clear_override_loop_rest)

section \<open>Invariants\<close>

lemma pair_of_update:
  "pair_of (if same_pair eid wd r then r\<lparr>o_status := st, o_notes := n\<rparr> else r) = pair_of r"
  by (simp add: pair_of_def)

lemma upsert_pairs_unique:
  assumes "pairs_unique s" "upsert_override eid wd notes now s = Inr s'"
  shows "pairs_unique s'"
proof -
  from upsert_overrides[OF assms(2)] show ?thesis
  proof (elim disjE conjE)
    assume "attendance_overrides s' =
      map (\<lambda>r. if same_pair eid wd r then r\<lparr>o_status := ''LIBUR'', o_notes := Some notes\<rparr> else r)
        (attendance_overrides s)"
    then have "map pair_of (attendance_overrides s') = map pair_of (attendance_overrides s)"
      by (simp only: map_map o_def pair_of_update)
    with assms(1) show ?thesis by (simp only: pairs_unique_def)
  next
    assume no: "\<not> (\<exists>r \<in> set (attendance_overrides s). same_pair eid wd r)"
      and eq: "attendance_overrides s' = attendance_overrides s @
             [\<lparr>o_id = new_rowid (seq_overrides s) (map o_id (attendance_overrides s)),
               o_employee_id = eid, o_work_date = wd, o_status = ''LIBUR'',
               o_notes = Some notes, o_created_at = now\<rparr>]"
    from no have "(eid, wd) \<notin> set (map pair_of (attendance_overrides s))"
      by (auto simp: pair_of_def same_pair_def)
    with assms(1) show ?thesis
      by (simp add: pairs_unique_def eq pair_of_def)
  qed
qed

lemma upsert_refs_exist:
  assumes "refs_exist s" "upsert_override eid wd notes now s = Inr s'"
  shows "refs_exist s'"
proof -
  have emp: "employees s' = employees s" by (rule upsert_employees[OF assms(2)])
  from upsert_overrides[OF assms(2)] show ?thesis
  proof (elim disjE conjE)
    assume eq: "attendance_overrides s' =
      map (\<lambda>r. if same_pair eid wd r then r\<lparr>o_status := ''LIBUR'', o_notes := Some notes\<rparr> else r)
        (attendance_overrides s)"
    have "o_employee_id (if same_pair eid wd r then r\<lparr>o_status := ''LIBUR'', o_notes := Some notes\<rparr> else r)
        = o_employee_id r" for r
      by simp
    with assms(1) show ?thesis
      by (simp only: refs_exist_def eq emp list_all_iff set_map ball_simps image_iff)
  next
    assume "eid \<in> set (map e_id (employees s))"
      and eq: "attendance_overrides s' = attendance_overrides s @
             [\<lparr>o_id = new_rowid (seq_overrides s) (map o_id (attendance_overrides s)),
               o_employee_id = eid, o_work_date = wd, o_status = ''LIBUR'',
               o_notes = Some notes, o_created_at = now\<rparr>]"
    with assms(1) show ?thesis
      by (simp add: refs_exist_def emp)
  qed
qed

lemma upsert_dates_iso:
  assumes "dates_iso s" "valid_date d" "upsert_override eid (isoformat d) notes now s = Inr s'"
  shows "dates_iso s'"
proof -
  let ?Q = "\<lambda>r. case work_date_of (o_work_date r) of
                      None \<Rightarrow> False
                    | Some d \<Rightarrow> valid_date d \<and> o_work_date r = isoformat d"
  from upsert_overrides[OF assms(3)] show ?thesis
  proof (elim disjE conjE)
    assume eq: "attendance_overrides s' =
      map (\<lambda>r. if same_pair eid (isoformat d) r then r\<lparr>o_status := ''LIBUR'', o_notes := Some notes\<rparr> else r)
        (attendance_overrides s)"
    have "?Q (if same_pair eid (isoformat d) r then r\<lparr>o_status := ''LIBUR'', o_notes := Some notes\<rparr> else r)
        = ?Q r" for r
      by (simp split: option.splits)
    then have "list_all ?Q (attendance_overrides s') = list_all ?Q (attendance_overrides s)"
      by (simp only: eq list_all_iff set_map ball_simps)
    with assms(1) show ?thesis by (simp only: dates_iso_def)
  next
    assume eq: "attendance_overrides s' = attendance_overrides s @
             [\<lparr>o_id = new_rowid (seq_overrides s) (map o_id (attendance_overrides s)),
               o_employee_id = eid, o_work_date = isoformat d, o_status = ''LIBUR'',
               o_notes = Some notes, o_created_at = now\<rparr>]"
    with assms(1,2) show ?thesis
      by (simp add: dates_iso_def work_date_of_isoformat)
  qed
qed

lemma distinct_map_filter_keep: "distinct (map f xs) \<Longrightarrow> distinct (map f (filter P xs))"
  by (induction xs) auto

lemma run_Nil: "run [] s = s"
  by (simp add: run_def)

lemma run_snoc: "run (ops @ [x]) s = apply_op x (run ops s)"
  by (simp add: run_def)

lemma run_append: "run (ops @ ops') s = run ops' (run ops s)"
  by (simp add: run_def)

lemma history_snoc: "history (ops @ [x]) = (history ops \<and> op_ok x)"
  by (simp add: history_def)

lemma apply_op_pairs_unique:
  assumes "pairs_unique s"
  shows "pairs_unique (apply_op x s)"
proof (cases x)
  case (Add_employee name code now)
  with assms show ?thesis by (simp add: pairs_unique_def add_employee_overrides)
next
  case (Save_status st i)
  with assms show ?thesis by (simp add: pairs_unique_def save_status_overrides)
next
  case (Set_libur ids d nts now)
  have "pairs_unique (snd (set_libur_loop ids (isoformat d) nts now s))"
    by (rule set_libur_loop_invariant[where P = pairs_unique, OF assms]) (rule upsert_pairs_unique)
  with Set_libur show ?thesis by (simp add: set_libur_def)
next
  case (Clear_override ids d)
  with assms show ?thesis
    by (simp add: pairs_unique_def clear_override_def clear_override_loop_overrides
        distinct_map_filter_keep)
next
  case (Delete_employee eid)
  with assms show ?thesis
    by (simp add: pairs_unique_def delete_employee_eq distinct_map_filter_keep)
qed

lemma history_pairs_unique: "history ops \<Longrightarrow> pairs_unique (run ops init_db)"
proof (induction ops rule: rev_induct)
  case Nil
  show ?case by (simp add: run_Nil pairs_unique_def init_db_def)
next
  case (snoc x ops)
  then show ?case by (simp add: run_snoc history_snoc apply_op_pairs_unique)
qed

lemma refs_exist_mono:
  assumes "refs_exist s" "attendance_overrides s' = attendance_overrides s"
    "set (map e_id (employees s)) \<subseteq> set (map e_id (employees s'))"
  shows "refs_exist s'"
  using assms unfolding refs_exist_def list_all_iff by auto

lemma apply_op_refs_exist:
  assumes "refs_exist s"
  shows "refs_exist (apply_op x s)"
proof (cases x)
  case (Add_employee name code now)
  have "set (map e_id (employees s)) \<subseteq> set (map e_id (employees (snd (add_employee name code now s))))"
    using add_employee_employees[of name code now s] by auto
  with assms Add_employee show ?thesis
    by (simp add: refs_exist_mono[OF assms add_employee_overrides])
next
  case (Save_status st i)
  with assms show ?thesis
    by (simp add: refs_exist_mono[OF assms save_status_overrides] save_status_ids)
next
  case (Set_libur ids d nts now)
  have "refs_exist (snd (set_libur_loop ids (isoformat d) nts now s))"
    by (rule set_libur_loop_invariant[where P = refs_exist, OF assms]) (rule upsert_refs_exist)
  with Set_libur show ?thesis by (simp add: set_libur_def)
next
  case (Clear_override ids d)
  with assms show ?thesis
    by (simp add: refs_exist_def clear_override_def clear_override_loop_overrides
        clear_override_loop_rest list_all_iff)
next
  case (Delete_employee eid)
  with assms show ?thesis
    by (auto simp: refs_exist_def delete_employee_eq list_all_iff)
qed

lemma history_refs_exist: "history ops \<Longrightarrow> refs_exist (run ops init_db)"
proof (induction ops rule: rev_induct)
  case Nil
  show ?case by (simp add: run_Nil refs_exist_def init_db_def)
next
  case (snoc x ops)
  then show ?case by (simp add: run_snoc history_snoc apply_op_refs_exist)
qed

lemma apply_op_dates_iso:
  assumes "dates_iso s" "op_ok x"
  shows "dates_iso (apply_op x s)"
proof (cases x)
  case (Add_employee name code now)
  with assms show ?thesis by (simp add: dates_iso_def add_employee_overrides)
next
  case (Save_status st i)
  with assms show ?thesis by (simp add: dates_iso_def save_status_overrides)
next
  case (Set_libur ids d nts now)
  with assms(2) have v: "valid_date d" by simp
  have "dates_iso (snd (set_libur_loop ids (isoformat d) nts now s))"
    by (rule set_libur_loop_invariant[where P = dates_iso, OF assms(1)])
       (rule upsert_dates_iso[OF _ v])
  with Set_libur show ?thesis by (simp add: set_libur_def)
next
  case (Clear_override ids d)
  with assms show ?thesis
    by (simp add: dates_iso_def clear_override_def clear_override_loop_overrides list_all_iff)
next
  case (Delete_employee eid)
  with assms show ?thesis
    by (simp add: dates_iso_def delete_employee_eq list_all_iff)
qed

lemma history_dates_iso: "history ops \<Longrightarrow> dates_iso (run ops init_db)"
proof (induction ops rule: rev_induct)
  case Nil
  show ?case by (simp add: run_Nil dates_iso_def init_db_def)
next
  case (snoc x ops)
  then show ?case by (simp add: run_snoc history_snoc apply_op_dates_iso)
qed

section \<open>What an upsert leaves behind\<close>

lemma upsert_succeeds:
  assumes "eid \<in> set (map e_id (employees s))"
  shows "\<exists>s'. upsert_override eid wd nts now s = Inr s'"
  using assms by (simp add: upsert_override_def Let_def)

lemma set_libur_loop_succeeds:
  "set ids \<subseteq> set (map e_id (employees s)) \<Longrightarrow> fst (set_libur_loop ids wd nts now s) = None"
proof (induction ids arbitrary: s)
  case Nil
  show ?case by simp
next
  case (Cons eid rest)
  then have "eid \<in> set (map e_id (employees s))" by simp
  from upsert_succeeds[OF this] obtain s' where s': "upsert_override eid wd nts now s = Inr s'"
    by blast
  have "employees s' = employees s" by (rule upsert_employees[OF s'])
  with Cons.prems have "set rest \<subseteq> set (map e_id (employees s'))" by simp
  from Cons.IH[OF this] s' show ?case by simp
qed

lemma same_pair_pair_of: "same_pair eid wd r = (pair_of r = (eid, wd))"
  by (auto simp: same_pair_def pair_of_def)

lemma same_pair_eq: "same_pair eid wd = (\<lambda>r. pair_of r = (eid, wd))"
  by (rule ext) (rule same_pair_pair_of)

lemma distinct_filter_single:
  "distinct (map f xs) \<Longrightarrow> x \<in> set xs \<Longrightarrow> filter (\<lambda>r. f r = f x) xs = [x]"
proof (induction xs)
  case Nil
  then show ?case by simp
next
  case (Cons y ys)
  show ?case
  proof (cases "x = y")
    case True
    from Cons.prems(1) have "\<forall>r \<in> set ys. f r \<noteq> f y" by (auto simp: image_iff)
    then have "filter (\<lambda>r. f r = f y) ys = []" by (simp add: filter_empty_conv)
    with True show ?thesis by simp
  next
    case False
    with Cons.prems have "x \<in> set ys" "distinct (map f ys)" "f y \<noteq> f x" by auto
    with Cons.IH show ?thesis by simp
  qed
qed

lemma upsert_one_row:
  assumes "pairs_unique s" "upsert_override eid wd nts now s = Inr s'"
  shows "one_row eid wd nts s'"
proof -
  let ?upd = "\<lambda>r. if same_pair eid wd r then r\<lparr>o_status := ''LIBUR'', o_notes := Some nts\<rparr> else r"
  from upsert_overrides[OF assms(2)] show ?thesis
  proof (elim disjE conjE)
    assume ex: "\<exists>r \<in> set (attendance_overrides s). same_pair eid wd r"
      and eq: "attendance_overrides s' = map ?upd (attendance_overrides s)"
    from ex obtain r0 where r0: "r0 \<in> set (attendance_overrides s)" "same_pair eid wd r0" by blast
    then have "pair_of r0 = (eid, wd)" by (simp add: same_pair_pair_of)
    with distinct_filter_single[of pair_of "attendance_overrides s" r0] assms(1) r0(1)
    have f: "filter (same_pair eid wd) (attendance_overrides s) = [r0]"
      by (simp add: pairs_unique_def same_pair_eq)
    have "same_pair eid wd (?upd r) = same_pair eid wd r" for r
      by (simp add: same_pair_def)
    then have "filter (same_pair eid wd) (map ?upd (attendance_overrides s)) =
        map ?upd (filter (same_pair eid wd) (attendance_overrides s))"
      by (simp add: filter_map o_def)
    with f r0(2) show ?thesis by (simp add: one_row_def eq)
  next
    assume no: "\<not> (\<exists>r \<in> set (attendance_overrides s). same_pair eid wd r)"
      and eq: "attendance_overrides s' = attendance_overrides s @
             [\<lparr>o_id = new_rowid (seq_overrides s) (map o_id (attendance_overrides s)),
               o_employee_id = eid, o_work_date = wd, o_status = ''LIBUR'',
               o_notes = Some nts, o_created_at = now\<rparr>]"
    from no have "filter (same_pair eid wd) (attendance_overrides s) = []"
      by (simp add: filter_empty_conv)
    then show ?thesis by (simp add: one_row_def eq same_pair_def)
  qed
qed

lemma upsert_other_one_row:
  assumes "one_row eid wd nts s" "eid' \<noteq> eid" "upsert_override eid' wd nts' now s = Inr s'"
  shows "one_row eid wd nts s'"
proof -
  let ?upd = "\<lambda>r. if same_pair eid' wd r then r\<lparr>o_status := ''LIBUR'', o_notes := Some nts'\<rparr> else r"
  from upsert_overrides[OF assms(3)] show ?thesis
  proof (elim disjE conjE)
    assume eq: "attendance_overrides s' = map ?upd (attendance_overrides s)"
    have "filter (same_pair eid wd) (map ?upd xs) = filter (same_pair eid wd) xs" for xs
      using assms(2) by (induction xs) (auto simp: same_pair_def)
    with assms(1) show ?thesis by (simp add: one_row_def eq)
  next
    assume eq: "attendance_overrides s' = attendance_overrides s @
             [\<lparr>o_id = new_rowid (seq_overrides s) (map o_id (attendance_overrides s)),
               o_employee_id = eid', o_work_date = wd, o_status = ''LIBUR'',
               o_notes = Some nts', o_created_at = now\<rparr>]"
    with assms(1,2) show ?thesis by (simp add: one_row_def same_pair_def)
  qed
qed

lemma set_libur_loop_one_row:
  assumes "pairs_unique s" "eid \<in> set ids" "fst (set_libur_loop ids wd nts now s) = None"
  shows "one_row eid wd nts (snd (set_libur_loop ids wd nts now s))"
  using assms
proof (induction ids arbitrary: s)
  case Nil
  then show ?case by simp
next
  case (Cons x rest)
  from Cons.prems(3) obtain s' where s': "upsert_override x wd nts now s = Inr s'"
    by (cases "upsert_override x wd nts now s") simp_all
  have pu: "pairs_unique s'" by (rule upsert_pairs_unique[OF Cons.prems(1) s'])
  have ok: "fst (set_libur_loop rest wd nts now s') = None"
    using Cons.prems(3) s' by simp
  show ?case
  proof (cases "eid \<in> set rest")
    case True
    from Cons.IH[OF pu True ok] s' show ?thesis by simp
  next
    case False
    with Cons.prems(2) have "x = eid" by simp
    with s' have one: "pairs_unique s' \<and> one_row eid wd nts s'"
      using upsert_one_row[OF Cons.prems(1)] pu by simp
    have "pairs_unique (snd (set_libur_loop rest wd nts now s')) \<and>
          one_row eid wd nts (snd (set_libur_loop rest wd nts now s'))"
    proof (rule set_libur_loop_invariant[where P = "\<lambda>t. pairs_unique t \<and> one_row eid wd nts t", OF one])
      fix e t t'
      assume p: "pairs_unique t \<and> one_row eid wd nts t" and u: "upsert_override e wd nts now t = Inr t'"
      show "pairs_unique t' \<and> one_row eid wd nts t'"
      proof (cases "e = eid")
        case True
        with p u show ?thesis using upsert_pairs_unique upsert_one_row by blast
      next
        case False
        with p u show ?thesis using upsert_pairs_unique upsert_other_one_row by blast
      qed
    qed
    with s' show ?thesis by simp
  qed
qed

lemma demo_history: "history demo_ops"
  by code_simp

lemma demo_db_value:
  "run demo_ops init_db =
    \<lparr>employees =
      [\<lparr>e_id = 1, e_full_name = ''Budi'', e_employee_code = Some ''E1'',
         e_is_active = 1, e_created_at = ''2024-01-02T08:00:00''\<rparr>,
       \<lparr>e_id = 2, e_full_name = ''Andi'', e_employee_code = None,
         e_is_active = 1, e_created_at = ''2024-01-02T08:01:00''\<rparr>],
     attendance_overrides =
       [\<lparr>o_id = 1, o_employee_id = 1, o_work_date = ''2024-01-05'',
          o_status = ''LIBUR'', o_notes = Some ''cuti'', o_created_at = ''2024-01-03T09:00:00''\<rparr>,
        \<lparr>o_id = 2, o_employee_id = 2, o_work_date = ''2024-01-05'',
          o_status = ''LIBUR'', o_notes = Some ''cuti'', o_created_at = ''2024-01-03T09:00:00''\<rparr>,
        \<lparr>o_id = 3, o_employee_id = 1, o_work_date = ''2024-01-09'',
          o_status = ''LIBUR'', o_notes = Some ''izin'', o_created_at = ''2024-01-08T09:00:00''\<rparr>,
        \<lparr>o_id = 4, o_employee_id = 1, o_work_date = ''2024-02-01'',
          o_status = ''LIBUR'', o_notes = Some ''izin'', o_created_at = ''2024-01-30T09:00:00''\<rparr>],
     seq_employees = 2, seq_overrides = 4\<rparr>"
  by code_simp

lemma distinct_filter_remove1:
  "distinct (map f xs) \<Longrightarrow> x \<in> set xs \<Longrightarrow> filter (\<lambda>r. f r \<noteq> f x) xs = remove1 x xs"
proof (induction xs)
  case Nil
  then show ?case by simp
next
  case (Cons y ys)
  show ?case
  proof (cases "x = y")
    case True
    from Cons.prems(1) have "\<forall>r \<in> set ys. f r \<noteq> f y" by (auto simp: image_iff)
    then have "filter (\<lambda>r. f r \<noteq> f y) ys = ys" by (simp add: filter_id_conv)
    with True show ?thesis by simp
  next
    case False
    with Cons.prems have "x \<in> set ys" "distinct (map f ys)" "f y \<noteq> f x" by auto
    with Cons.IH False show ?thesis by simp
  qed
qed

lemma clear_override_single:
  "attendance_overrides (clear_override [eid] d s) =
     filter (\<lambda>r. \<not> same_pair eid (isoformat d) r) (attendance_overrides s)"
  by (simp add: clear_override_def delete_override_def)

lemma clear_override_absent:
  assumes "\<forall>r \<in> set (attendance_overrides s). \<not> same_pair eid (isoformat d) r"
  shows "clear_override [eid] d s = s"
proof -
  from assms have "filter (\<lambda>r. \<not> same_pair eid (isoformat d) r) (attendance_overrides s) =
      attendance_overrides s"
    by (simp add: filter_id_conv)
  then show ?thesis by (simp add: clear_override_def delete_override_def)
qed

lemma clear_override_present:
  assumes "pairs_unique s" "r \<in> set (attendance_overrides s)" "same_pair eid (isoformat d) r"
  shows "clear_override [eid] d s = s\<lparr>attendance_overrides := remove1 r (attendance_overrides s)\<rparr>"
proof -
  from assms(3) have p: "pair_of r = (eid, isoformat d)" by (simp add: same_pair_pair_of)
  have "filter (\<lambda>x. \<not> same_pair eid (isoformat d) x) (attendance_overrides s) =
      filter (\<lambda>x. pair_of x \<noteq> pair_of r) (attendance_overrides s)"
    by (simp add: same_pair_pair_of p)
  also have "\<dots> = remove1 r (attendance_overrides s)"
    using assms(1,2) by (simp add: pairs_unique_def distinct_filter_remove1)
  finally show ?thesis by (simp add: clear_override_def delete_override_def)
qed

lemma upsert_keeps_rows:
  fixes k :: "override \<Rightarrow> int \<times> int \<times> string \<times> string"
  defines "k \<equiv> \<lambda>r. (o_id r, o_employee_id r, o_work_date r, o_created_at r)"
  assumes "length rows \<le> length (attendance_overrides s) \<and>
     take (length rows) (map k (attendance_overrides s)) = map k rows"
    and "upsert_override eid wd nts now s = Inr s'"
  shows "length rows \<le> length (attendance_overrides s') \<and>
     take (length rows) (map k (attendance_overrides s')) = map k rows"
proof -
  from upsert_overrides[OF assms(3)] show ?thesis
  proof (elim disjE conjE)
    assume eq: "attendance_overrides s' =
      map (\<lambda>r. if same_pair eid wd r then r\<lparr>o_status := ''LIBUR'', o_notes := Some nts\<rparr> else r)
        (attendance_overrides s)"
    have "k (if same_pair eid wd r then r\<lparr>o_status := ''LIBUR'', o_notes := Some nts\<rparr> else r) = k r" for r
      by (simp add: k_def)
    then have "map k (attendance_overrides s') = map k (attendance_overrides s)"
      by (simp add: eq o_def)
    moreover have "length (attendance_overrides s') = length (attendance_overrides s)"
      by (simp add: eq)
    ultimately show ?thesis using assms(2) by (simp only:)
  next
    assume eq: "attendance_overrides s' = attendance_overrides s @
             [\<lparr>o_id = new_rowid (seq_overrides s) (map o_id (attendance_overrides s)),
               o_employee_id = eid, o_work_date = wd, o_status = ''LIBUR'',
               o_notes = Some nts, o_created_at = now\<rparr>]"
    with assms(2) show ?thesis by (simp add: eq)
  qed
qed

lemma set_libur_keeps_rows:
  "take (length (attendance_overrides s))
     (map (\<lambda>r. (o_id r, o_employee_id r, o_work_date r, o_created_at r))
        (attendance_overrides (snd (set_libur ids d nts now s)))) =
   map (\<lambda>r. (o_id r, o_employee_id r, o_work_date r, o_created_at r)) (attendance_overrides s)"
proof -
  let ?k = "\<lambda>r. (o_id r, o_employee_id r, o_work_date r, o_created_at r)"
  let ?P = "\<lambda>t. length (attendance_overrides s) \<le> length (attendance_overrides t) \<and>
     take (length (attendance_overrides s)) (map ?k (attendance_overrides t)) =
       map ?k (attendance_overrides s)"
  have "?P (snd (set_libur_loop ids (isoformat d) nts now s))"
  proof (rule set_libur_loop_invariant[where P = ?P])
    show "?P s" by simp
  next
    fix e t t'
    assume "?P t" "upsert_override e (isoformat d) nts now t = Inr t'"
    then show "?P t'" by (rule upsert_keeps_rows)
  qed
  then show ?thesis by (simp add: set_libur_def)
qed

lemma set_libur_existing:
  assumes "\<exists>r \<in> set (attendance_overrides s). same_pair eid (isoformat d) r"
  shows "set_libur [eid] d nts now s =
    (None, s\<lparr>attendance_overrides :=
               map (\<lambda>r. if same_pair eid (isoformat d) r
                         then r\<lparr>o_status := ''LIBUR'', o_notes := Some nts\<rparr> else r)
                   (attendance_overrides s),
             seq_overrides := new_rowid (seq_overrides s) (map o_id (attendance_overrides s))\<rparr>)"
  using assms by (simp add: set_libur_def upsert_override_def Let_def)

section \<open>The report\<close>

lemma filter_key_distinct:
  "distinct ks \<Longrightarrow>
   filter (\<lambda>r. fst r = k) (map (\<lambda>k. (k, g k)) ks) = (if k \<in> set ks then [(k, g k)] else [])"
  by (induction ks) auto

lemma libur_counts_lookup:
  "filter (\<lambda>r. fst r = k) (libur_counts lo hi s) =
     (if text_count lo hi s k = 0 then [] else [(k, text_count lo hi s k)])"
proof -
  let ?sel = "filter (\<lambda>r. lo \<le> o_work_date r \<and> o_work_date r \<le> hi) (attendance_overrides s)"
  have c: "int (length (filter (\<lambda>r. o_employee_id r = k) ?sel)) = text_count lo hi s k"
    by (simp add: text_count_def conj_commute conj_left_commute cong: conj_cong)
  have m: "(k \<in> set (map o_employee_id ?sel)) = (text_count lo hi s k \<noteq> 0)"
  proof -
    have "(text_count lo hi s k \<noteq> 0) = (filter (\<lambda>r. o_employee_id r = k) ?sel \<noteq> [])"
      by (simp only: c[symmetric]) simp
    also have "\<dots> = (k \<in> set (map o_employee_id ?sel))"
      by (auto simp: filter_empty_conv)
    finally show ?thesis by simp
  qed
  have "filter (\<lambda>r. fst r = k) (libur_counts lo hi s) =
      (if k \<in> set (remdups (map o_employee_id ?sel))
       then [(k, int (length (filter (\<lambda>r. o_employee_id r = k) ?sel)))] else [])"
    unfolding libur_counts_def Let_def
    by (rule filter_key_distinct) simp
  then show ?thesis by (simp only: c m set_remdups) simp
qed

lemma merge_left_libur_counts:
  "map (\<lambda>(l, c). (l, fillna0 c)) (merge_left emps (libur_counts lo hi s)) =
   map (\<lambda>l. (l, text_count lo hi s (fst l))) emps"
  by (induction emps) (simp_all add: merge_left_def libur_counts_lookup fillna0_def)


lemma sorted_get_active_employees:
  "sorted (map (\<lambda>(i, n, c). n) (get_active_employees s))"
proof -
  have "map (\<lambda>(i, n, c). n) (get_active_employees s) =
      map e_full_name (sort_key e_full_name (filter (\<lambda>e. e_is_active e = 1) (employees s)))"
    by (simp add: get_active_employees_def o_def)
  then show ?thesis by (simp only: sorted_sort_key)
qed

lemma build_report_rows:
  "build_report lo hi s =
     map (\<lambda>(i, n, c).
            \<lparr>full_name = n, employee_code = c, total_days = date_diff_days hi lo + 1,
             masuk_days = date_diff_days hi lo + 1 - text_count (isoformat lo) (isoformat hi) s i,
             libur_days = text_count (isoformat lo) (isoformat hi) s i\<rparr>)
         (get_active_employees s)"
proof -
  let ?T = "date_diff_days hi lo + 1"
  let ?g = "\<lambda>(i, n, c).
            \<lparr>full_name = n, employee_code = c, total_days = ?T,
             masuk_days = ?T - text_count (isoformat lo) (isoformat hi) s i,
             libur_days = text_count (isoformat lo) (isoformat hi) s i\<rparr>"
  let ?emps = "get_active_employees s"
  have rows: "map (\<lambda>((i, n, c), lib).
                 \<lparr>full_name = n, employee_code = c, total_days = ?T,
                  masuk_days = ?T - lib, libur_days = lib\<rparr>)
        (map (\<lambda>(l, c). (l, fillna0 c))
             (merge_left ?emps (libur_counts (isoformat lo) (isoformat hi) s))) = map ?g ?emps"
    by (simp only: merge_left_libur_counts) (simp add: o_def split_def)
  have "map full_name (map ?g ?emps) = map (\<lambda>(i, n, c). n) ?emps"
    by (simp add: o_def split_def)
  then have "sorted (map full_name (map ?g ?emps))"
    by (simp only: sorted_get_active_employees)
  then have srt: "sort_key full_name (map ?g ?emps) = map ?g ?emps"
    by (rule sort_key_id_if_sorted)
  show ?thesis
  proof (cases "?emps = []")
    case True
    then show ?thesis by (simp add: build_report_def)
  next
    case False
    then have "build_report lo hi s = sort_key full_name (map ?g ?emps)"
      unfolding build_report_def Let_def by (simp only: rows if_False)
    with srt show ?thesis by simp
  qed
qed

lemma sorted_build_report: "sorted (map full_name (build_report lo hi s))"
proof -
  have "map full_name (build_report lo hi s) = map (\<lambda>(i, n, c). n) (get_active_employees s)"
    by (simp add: build_report_rows o_def split_def)
  then show ?thesis by (simp only: sorted_get_active_employees)
qed

lemma build_report_names:
  "map full_name (build_report lo hi s) =
     sort (map e_full_name (filter (\<lambda>e. e_is_active e = 1) (employees s)))"
proof -
  let ?act = "filter (\<lambda>e. e_is_active e = 1) (employees s)"
  have "map full_name (build_report lo hi s) = map e_full_name (sort_key e_full_name ?act)"
    by (simp add: build_report_rows get_active_employees_def o_def split_def)
  moreover have "sort (map e_full_name ?act) = map e_full_name (sort_key e_full_name ?act)"
    by (rule properties_for_sort) (simp_all only: mset_map mset_sort sorted_sort_key)
  ultimately show ?thesis by (simp only:)
qed

lemma text_count_spec:
  assumes "dates_iso s" "valid_date lo" "valid_date hi"
  shows "text_count (isoformat lo) (isoformat hi) s k = spec_absent_days s k lo hi"
proof -
  have H: "(isoformat lo \<le> o_work_date r \<and> o_work_date r \<le> isoformat hi) = override_in_range lo hi r"
    if "r \<in> set (attendance_overrides s)" for r
  proof (cases "work_date_of (o_work_date r)")
    case None
    from assms(1) that have "case work_date_of (o_work_date r) of None \<Rightarrow> False
        | Some d \<Rightarrow> valid_date d \<and> o_work_date r = isoformat d"
      by (simp only: dates_iso_def list_all_iff)
    with None show ?thesis by (simp only: option.case)
  next
    case (Some d)
    from assms(1) that have "case work_date_of (o_work_date r) of None \<Rightarrow> False
        | Some d \<Rightarrow> valid_date d \<and> o_work_date r = isoformat d"
      by (simp only: dates_iso_def list_all_iff)
    with Some have d: "valid_date d" "o_work_date r = isoformat d"
      by (simp_all only: option.case)
    have "(isoformat lo \<le> isoformat d \<and> isoformat d \<le> isoformat hi) = (date_le lo d \<and> date_le d hi)"
      by (simp only: isoformat_le[OF assms(2) d(1)] isoformat_le[OF d(1) assms(3)])
    then have "(isoformat lo \<le> o_work_date r \<and> o_work_date r \<le> isoformat hi) =
        (date_le lo d \<and> date_le d hi)"
      by (simp only: d(2))
    then show ?thesis by (simp only: override_in_range_def Some option.case)
  qed
  have "filter (\<lambda>r. o_employee_id r = k \<and> isoformat lo \<le> o_work_date r \<and> o_work_date r \<le> isoformat hi)
        (attendance_overrides s) =
      filter (\<lambda>r. o_employee_id r = k \<and> override_in_range lo hi r) (attendance_overrides s)"
  proof (rule filter_cong[OF refl])
    fix x assume "x \<in> set (attendance_overrides s)"
    from H[OF this] show "(o_employee_id x = k \<and> isoformat lo \<le> o_work_date x \<and> o_work_date x \<le> isoformat hi) =
      (o_employee_id x = k \<and> override_in_range lo hi x)"
      by (simp only:)
  qed
  then show ?thesis by (simp only: text_count_def spec_absent_days_def)
qed

lemma build_report_spec:
  assumes "dates_iso s" "valid_date lo" "valid_date hi"
  shows "build_report lo hi s =
    map (spec_report_row s lo hi)
        (sort_key e_full_name (filter (\<lambda>e. e_is_active e = 1) (employees s)))"
  by (simp add: build_report_rows get_active_employees_def text_count_spec[OF assms]
      spec_report_row_def Let_def o_def)

lemma mset_build_report:
  assumes "dates_iso s" "valid_date lo" "valid_date hi"
  shows "mset (build_report lo hi s) =
    image_mset (spec_report_row s lo hi) (mset (filter (\<lambda>e. e_is_active e = 1) (employees s)))"
  by (simp only: build_report_spec[OF assms] mset_map mset_sort)

lemma row_in_report:
  assumes "dates_iso s" "valid_date lo" "valid_date hi" "e \<in> set (employees s)" "e_is_active e = 1"
  shows "spec_report_row s lo hi e \<in> set (build_report lo hi s)"
  using assms(4,5) by (simp add: build_report_spec[OF assms(1,2,3)])

lemma report_row_fields:
  assumes "r \<in> set (build_report lo hi s)"
  shows "masuk_days r + libur_days r = total_days r \<and> total_days r = date_diff_days hi lo + 1"
  using assms by (auto simp: build_report_rows)

lemma january_2024:
  "valid_date \<lparr>year = 2024, month = 1, day = 1\<rparr>"
  "valid_date \<lparr>year = 2024, month = 1, day = 31\<rparr>"
  "date_diff_days \<lparr>year = 2024, month = 1, day = 31\<rparr> \<lparr>year = 2024, month = 1, day = 1\<rparr> = 30"
  by code_simp+

lemma march_2024:
  "valid_date \<lparr>year = 2024, month = 3, day = 1\<rparr>"
  "valid_date \<lparr>year = 2024, month = 3, day = 31\<rparr>"
  "date_diff_days \<lparr>year = 2024, month = 3, day = 31\<rparr> \<lparr>year = 2024, month = 3, day = 1\<rparr> = 30"
  by code_simp+

lemma no_active_employee:
  assumes "\<forall>e \<in> set (employees s). e_is_active e \<noteq> 1"
  shows "build_report lo hi s = []"
proof -
  from assms have "filter (\<lambda>e. e_is_active e = 1) (employees s) = []"
    by (simp add: filter_empty_conv)
  then have "get_active_employees s = []" by (simp add: get_active_employees_def)
  then show ?thesis by (simp add: build_report_def)
qed

section \<open>Deactivated employees\<close>

lemma fold_max_ge: "sq \<le> fold max ids (sq::int)"
  by (induction ids arbitrary: sq) (auto intro: order_trans[OF max.cobounded2])

lemma new_rowid_gt: "sq < new_rowid sq ids"
  using fold_max_ge[of sq ids] by (simp add: new_rowid_def)

lemma fold_max_ge_elem: "i \<in> set ids \<Longrightarrow> i \<le> fold max ids (sq::int)"
proof (induction ids arbitrary: sq)
  case Nil
  then show ?case by simp
next
  case (Cons a ids)
  show ?case
  proof (cases "i = a")
    case True
    have "max a sq \<le> fold max ids (max a sq)" by (rule fold_max_ge)
    with True show ?thesis by simp
  next
    case False
    with Cons.prems have "i \<in> set ids" by simp
    from Cons.IH[OF this] show ?thesis by simp
  qed
qed

lemma add_employee_cases:
  "snd (add_employee name code now s) = s \<or>
   (\<exists>nm cd. snd (add_employee name code now s) =
      s\<lparr>employees := employees s @
           [\<lparr>e_id = new_rowid (seq_employees s) (map e_id (employees s)), e_full_name = nm,
             e_employee_code = cd, e_is_active = 1, e_created_at = now\<rparr>],
        seq_employees := new_rowid (seq_employees s) (map e_id (employees s))\<rparr>)"
  by (simp add: add_employee_def insert_employee_def Let_def split: sum.splits py_error.splits)
     blast


lemma set_libur_loop_seq_employees:
  "seq_employees (snd (set_libur_loop ids wd nts now s)) = seq_employees s"
proof (rule set_libur_loop_invariant[where P = "\<lambda>t. seq_employees t = seq_employees s"])
  show "seq_employees s = seq_employees s" by simp
next
  fix e t t'
  assume "seq_employees t = seq_employees s" "upsert_override e wd nts now t = Inr t'"
  then show "seq_employees t' = seq_employees s"
    by (auto simp: upsert_override_def Let_def split: if_splits)
qed

lemma save_status_employees:
  "employees (save_status st i s) =
     map (\<lambda>e. if e_id e = i then e\<lparr>e_is_active := (if st = ''Aktif'' then 1 else 0)\<rparr> else e)
         (employees s)"
  "seq_employees (save_status st i s) = seq_employees s"
  by (simp_all add: save_status_def)

lemma flag_update_bounded:
  "list_all (\<lambda>e. e_id e \<le> q) (map (\<lambda>e. if e_id e = i then e\<lparr>e_is_active := v\<rparr> else e) es) =
   list_all (\<lambda>e. e_id e \<le> q) es"
  by (induction es) auto

lemma flag_update_inactive:
  assumes "v \<noteq> 1 \<or> i \<noteq> eid"
    and "list_all (\<lambda>e. e_id e = eid \<longrightarrow> e_is_active e \<noteq> 1) es"
  shows "list_all (\<lambda>e. e_id e = eid \<longrightarrow> e_is_active e \<noteq> 1)
           (map (\<lambda>e. if e_id e = i then e\<lparr>e_is_active := v\<rparr> else e) es)"
  using assms by (induction es) auto

lemma flag_update_deactivates:
  "list_all (\<lambda>e. e_id e = eid \<longrightarrow> e_is_active e \<noteq> 1)
           (map (\<lambda>e. if e_id e = eid then e\<lparr>e_is_active := 0\<rparr> else e) es)"
  by (induction es) auto

lemma apply_op_ids_bounded:
  assumes "ids_bounded s"
  shows "ids_bounded (apply_op x s)"
proof (cases x)
  case (Add_employee name code now)
  from add_employee_cases[of name code now s] assms Add_employee show ?thesis
  proof (elim disjE exE)
    fix nm cd
    assume eq: "snd (add_employee name code now s) =
      s\<lparr>employees := employees s @
           [\<lparr>e_id = new_rowid (seq_employees s) (map e_id (employees s)), e_full_name = nm,
             e_employee_code = cd, e_is_active = 1, e_created_at = now\<rparr>],
        seq_employees := new_rowid (seq_employees s) (map e_id (employees s))\<rparr>"
    have "seq_employees s \<le> new_rowid (seq_employees s) (map e_id (employees s))"
      using new_rowid_gt[of "seq_employees s" "map e_id (employees s)"] by simp
    with assms have "list_all (\<lambda>e. e_id e \<le> new_rowid (seq_employees s) (map e_id (employees s)))
        (employees s)"
      unfolding ids_bounded_def list_all_iff by (meson order_trans)
    with Add_employee show ?thesis by (simp add: ids_bounded_def eq)
  qed simp
next
  case (Save_status st i)
  with assms show ?thesis
    by (simp only: ids_bounded_def apply_op.simps save_status_employees flag_update_bounded)
next
  case (Set_libur ids d nts now)
  with assms show ?thesis
    by (simp add: ids_bounded_def set_libur_def set_libur_loop_employees set_libur_loop_seq_employees)
next
  case (Clear_override ids d)
  with assms show ?thesis
    by (simp add: ids_bounded_def clear_override_def clear_override_loop_rest)
next
  case (Delete_employee eid)
  with assms show ?thesis by (simp add: ids_bounded_def delete_employee_eq list_all_iff)
qed

lemma history_ids_bounded: "history ops \<Longrightarrow> ids_bounded (run ops init_db)"
proof (induction ops rule: rev_induct)
  case Nil
  show ?case by (simp add: run_Nil ids_bounded_def init_db_def)
next
  case (snoc x ops)
  then show ?case by (simp add: run_snoc history_snoc apply_op_ids_bounded)
qed

lemma apply_op_stays_inactive:
  assumes "stays_inactive eid s" "x \<noteq> Save_status ''Aktif'' eid"
  shows "stays_inactive eid (apply_op x s)"
proof (cases x)
  case (Add_employee name code now)
  from add_employee_cases[of name code now s] assms(1) Add_employee show ?thesis
  proof (elim disjE exE)
    fix nm cd
    assume eq: "snd (add_employee name code now s) =
      s\<lparr>employees := employees s @
           [\<lparr>e_id = new_rowid (seq_employees s) (map e_id (employees s)), e_full_name = nm,
             e_employee_code = cd, e_is_active = 1, e_created_at = now\<rparr>],
        seq_employees := new_rowid (seq_employees s) (map e_id (employees s))\<rparr>"
    have "seq_employees s < new_rowid (seq_employees s) (map e_id (employees s))"
      by (rule new_rowid_gt)
    with assms(1) Add_employee show ?thesis by (simp add: stays_inactive_def eq)
  qed simp
next
  case (Save_status st i)
  have "(if st = ''Aktif'' then 1 else 0) \<noteq> (1::int) \<or> i \<noteq> eid"
  proof (cases "i = eid")
    case True
    with assms(2) Save_status have "st \<noteq> ''Aktif''" by simp
    then show ?thesis by simp
  next
    case False
    then show ?thesis by simp
  qed
  from flag_update_inactive[OF this] assms(1) Save_status show ?thesis
    by (simp only: stays_inactive_def apply_op.simps save_status_employees) blast
next
  case (Set_libur ids d nts now)
  with assms(1) show ?thesis
    by (simp add: stays_inactive_def set_libur_def set_libur_loop_employees set_libur_loop_seq_employees)
next
  case (Clear_override ids d)
  with assms(1) show ?thesis
    by (simp add: stays_inactive_def clear_override_def clear_override_loop_rest)
next
  case (Delete_employee i)
  with assms(1) show ?thesis by (simp add: stays_inactive_def delete_employee_eq list_all_iff)
qed

lemma run_stays_inactive:
  "stays_inactive eid s \<Longrightarrow> Save_status ''Aktif'' eid \<notin> set ops \<Longrightarrow>
   stays_inactive eid (run ops s)"
proof (induction ops rule: rev_induct)
  case Nil
  then show ?case by (simp add: run_Nil)
next
  case (snoc x ops)
  then have "stays_inactive eid (run ops s)" "x \<noteq> Save_status ''Aktif'' eid" by auto
  then show ?case by (simp add: run_snoc apply_op_stays_inactive)
qed

lemma deactivate_stays_inactive:
  assumes "ids_bounded s" "eid \<in> set (map e_id (employees s))"
  shows "stays_inactive eid (save_status ''Nonaktif'' eid s)"
proof -
  from assms have "eid \<le> seq_employees s" by (auto simp: ids_bounded_def list_all_iff)
  then show ?thesis
    using flag_update_deactivates[of eid "employees s"]
    by (simp add: stays_inactive_def save_status_def)
qed

lemma stays_inactive_filter:
  assumes "stays_inactive eid s"
  shows "filter (\<lambda>e. e_is_active e = 1) (employees s) =
         filter (\<lambda>e. e_is_active e = 1 \<and> e_id e \<noteq> eid) (employees s)"
  using assms by (auto simp: stays_inactive_def list_all_iff intro!: filter_cong)

lemma deactivate_filter:
  "image_mset (spec_report_row s lo hi)
     (mset (filter (\<lambda>e. e_is_active e = 1) (employees (save_status ''Nonaktif'' eid s)))) =
   image_mset (spec_report_row s lo hi)
     (mset (filter (\<lambda>e. e_is_active e = 1 \<and> e_id e \<noteq> eid) (employees s)))"
proof -
  have "map (spec_report_row s lo hi)
      (filter (\<lambda>e. e_is_active e = 1)
         (map (\<lambda>e. if e_id e = eid then e\<lparr>e_is_active := 0\<rparr> else e) es)) =
    map (spec_report_row s lo hi) (filter (\<lambda>e. e_is_active e = 1 \<and> e_id e \<noteq> eid) es)" for es
    by (induction es) (simp_all add: spec_report_row_def)
  from this[of "employees s"] have "map (spec_report_row s lo hi)
      (filter (\<lambda>e. e_is_active e = 1) (employees (save_status ''Nonaktif'' eid s))) =
    map (spec_report_row s lo hi) (filter (\<lambda>e. e_is_active e = 1 \<and> e_id e \<noteq> eid) (employees s))"
    by (simp add: save_status_def)
  then show ?thesis by (metis mset_map)
qed

lemma spec_report_row_overrides:
  "attendance_overrides s' = attendance_overrides s \<Longrightarrow>
   spec_report_row s' lo hi = spec_report_row s lo hi"
  by (rule ext) (simp add: spec_report_row_def spec_absent_days_def)

section \<open>Adding an employee\<close>

lemma add_employee_blank:
  "strip name = [] \<Longrightarrow> add_employee name code now s = (St_error ''Nama tidak boleh kosong.'', s)"
  by (simp add: add_employee_def)

lemma add_employee_duplicate:
  assumes "strip name \<noteq> []" "strip code \<noteq> []"
    "Some (strip code) \<in> set (map e_employee_code (employees s))"
  shows "add_employee name code now s =
    (St_error ''Gagal: UNIQUE constraint failed: employees.employee_code'', s)"
proof -
  from assms have "insert_employee (strip name) (Some (strip code)) now s =
      Inl (IntegrityError ''UNIQUE constraint failed: employees.employee_code'')"
    by (simp add: insert_employee_def)
  with assms(1,2) show ?thesis by (simp add: add_employee_def)
qed

lemma add_employee_inserts:
  assumes "strip name \<noteq> []"
    "strip code = [] \<or> Some (strip code) \<notin> set (map e_employee_code (employees s))"
  shows "add_employee name code now s =
    (St_success ''Karyawan ditambahkan.'',
     s\<lparr>employees := employees s @
          [\<lparr>e_id = new_rowid (seq_employees s) (map e_id (employees s)),
            e_full_name = strip name,
            e_employee_code = (if strip code = [] then None else Some (strip code)),
            e_is_active = 1, e_created_at = now\<rparr>],
       seq_employees := new_rowid (seq_employees s) (map e_id (employees s))\<rparr>)"
proof -
  let ?c = "if strip code = [] then None else Some (strip code)"
  from assms(2) have "\<not> (?c \<noteq> None \<and> ?c \<in> set (map e_employee_code (employees s)))"
    by (cases "strip code = []") simp_all
  then have "insert_employee (strip name) ?c now s =
      Inr (s\<lparr>employees := employees s @
          [\<lparr>e_id = new_rowid (seq_employees s) (map e_id (employees s)),
            e_full_name = strip name, e_employee_code = ?c,
            e_is_active = 1, e_created_at = now\<rparr>],
       seq_employees := new_rowid (seq_employees s) (map e_id (employees s))\<rparr>)"
    by (simp only: insert_employee_def Let_def if_False)
  with assms(1) show ?thesis by (simp only: add_employee_def if_False sum.case)
qed

lemma add_employee_codes_unique:
  assumes "codes_unique s"
  shows "codes_unique (snd (add_employee name code now s))"
proof (cases "strip name = []")
  case True
  with assms show ?thesis by (simp add: add_employee_blank)
next
  case False
  show ?thesis
  proof (cases "strip code \<noteq> [] \<and> Some (strip code) \<in> set (map e_employee_code (employees s))")
    case True
    with False assms show ?thesis by (simp add: add_employee_duplicate)
  next
    case False
    then have c: "strip code = [] \<or> Some (strip code) \<notin> set (map e_employee_code (employees s))"
      by blast
    from assms c show ?thesis
      by (simp only: add_employee_inserts[OF \<open>strip name \<noteq> []\<close> c] snd_conv)
         (auto simp: codes_unique_def)
  qed
qed

lemma distinct_filter_map_filter:
  "distinct (filter P (map f xs)) \<Longrightarrow> distinct (filter P (map f (filter Q xs)))"
  by (induction xs) auto

lemma apply_op_codes_unique:
  assumes "codes_unique s"
  shows "codes_unique (apply_op x s)"
proof (cases x)
  case (Add_employee name code now)
  with assms show ?thesis by (simp add: add_employee_codes_unique)
next
  case (Save_status st i)
  have "map e_employee_code (employees (save_status st i s)) = map e_employee_code (employees s)"
    by (simp add: save_status_def o_def)
  with assms Save_status show ?thesis by (simp add: codes_unique_def)
next
  case (Set_libur ids d nts now)
  with assms show ?thesis by (simp add: codes_unique_def set_libur_def set_libur_loop_employees)
next
  case (Clear_override ids d)
  with assms show ?thesis by (simp add: codes_unique_def clear_override_def clear_override_loop_rest)
next
  case (Delete_employee eid)
  with assms show ?thesis
    by (simp add: codes_unique_def delete_employee_eq distinct_filter_map_filter)
qed

lemma history_codes_unique: "history ops \<Longrightarrow> codes_unique (run ops init_db)"
proof (induction ops rule: rev_induct)
  case Nil
  show ?case by (simp add: run_Nil codes_unique_def init_db_def)
next
  case (snoc x ops)
  then show ?case by (simp add: run_snoc history_snoc apply_op_codes_unique)
qed

section \<open>The range helpers\<close>

lemma month_range_raises: "\<exists>err. month_range y m = Inl err"
  by (simp add: month_range_def date_to_pydatetime_def split: sum.splits)

lemma year_range_value:
  "1 \<le> y \<Longrightarrow> y \<le> 9999 \<Longrightarrow>
   year_range y = Inr (\<lparr>year = y, month = 1, day = 1\<rparr>, \<lparr>year = y, month = 12, day = 31\<rparr>)"
  by (simp add: year_range_def date_new_def MINYEAR_def MAXYEAR_def days_in_month_def
      DAYS_IN_MONTH_def)

lemma year_range_outside: "y < 1 \<or> 9999 < y \<Longrightarrow> year_range y = Inl ValueError"
  by (auto simp: year_range_def date_new_def MINYEAR_def MAXYEAR_def)

section \<open>The claims of the specification\<close>

text \<open>
  Claim C1: for every pair of dates and every database state, every row of the report
  satisfies \<open>present_days + absent_days = total_days\<close> with
  \<open>total_days = (end - start) + 1\<close>; in particular, for the range 2024-01-01..2024-01-31
  an active employee with exactly 2 overrides in range gets \<open>present_days = 29\<close> and
  \<open>absent_days = 2\<close>.  The first conjunct holds for any dates and any state; the second
  for the state after any history.
\<close>

theorem present_plus_absent_is_total:
  "(\<forall>r \<in> set (build_report lo hi s).
      masuk_days r + libur_days r = total_days r \<and> total_days r = date_diff_days hi lo + 1) \<and>
   (history ops \<and> e \<in> set (employees (run ops init_db)) \<and> e_is_active e = 1 \<and>
    spec_absent_days (run ops init_db) (e_id e)
      \<lparr>year = 2024, month = 1, day = 1\<rparr> \<lparr>year = 2024, month = 1, day = 31\<rparr> = 2 \<longrightarrow>
      \<lparr>full_name = e_full_name e, employee_code = e_employee_code e,
       total_days = 31, masuk_days = 29, libur_days = 2\<rparr>
        \<in> set (build_report \<lparr>year = 2024, month = 1, day = 1\<rparr>
                              \<lparr>year = 2024, month = 1, day = 31\<rparr> (run ops init_db)))"
proof (intro conjI impI ballI)
  fix r assume "r \<in> set (build_report lo hi s)"
  then show "masuk_days r + libur_days r = total_days r" "total_days r = date_diff_days hi lo + 1"
    using report_row_fields by blast+
next
  let ?lo = "\<lparr>year = 2024, month = 1, day = 1\<rparr>" and ?hi = "\<lparr>year = 2024, month = 1, day = 31\<rparr>"
  let ?s = "run ops init_db"
  assume h: "history ops \<and> e \<in> set (employees ?s) \<and> e_is_active e = 1 \<and>
    spec_absent_days ?s (e_id e) ?lo ?hi = 2"
  then have "dates_iso ?s" by (simp add: history_dates_iso)
  from row_in_report[OF this january_2024(1,2)] h
  have "spec_report_row ?s ?lo ?hi e \<in> set (build_report ?lo ?hi ?s)" by blast
  moreover have "spec_report_row ?s ?lo ?hi e =
      \<lparr>full_name = e_full_name e, employee_code = e_employee_code e,
       total_days = 31, masuk_days = 29, libur_days = 2\<rparr>"
    using h by (simp add: spec_report_row_def january_2024(3))
  ultimately show "\<lparr>full_name = e_full_name e, employee_code = e_employee_code e,
       total_days = 31, masuk_days = 29, libur_days = 2\<rparr> \<in> set (build_report ?lo ?hi ?s)"
    by (simp only:)
qed

theorem present_plus_absent_is_total_witness:
  "history demo_ops \<and>
   \<lparr>full_name = ''Budi'', employee_code = Some ''E1'', total_days = 31, masuk_days = 29,
    libur_days = 2\<rparr>
     \<in> set (build_report \<lparr>year = 2024, month = 1, day = 1\<rparr>
                           \<lparr>year = 2024, month = 1, day = 31\<rparr> (run demo_ops init_db)) \<and>
   spec_absent_days (run demo_ops init_db) 1
     \<lparr>year = 2024, month = 1, day = 1\<rparr> \<lparr>year = 2024, month = 1, day = 31\<rparr> = 2 \<and>
   date_diff_days \<lparr>year = 2024, month = 1, day = 31\<rparr> \<lparr>year = 2024, month = 1, day = 1\<rparr> + 1 = 31"
proof -
  let ?lo = "\<lparr>year = 2024, month = 1, day = 1\<rparr>" and ?hi = "\<lparr>year = 2024, month = 1, day = 31\<rparr>"
  let ?e = "\<lparr>e_id = 1, e_full_name = ''Budi'', e_employee_code = Some ''E1'',
         e_is_active = 1, e_created_at = ''2024-01-02T08:00:00''\<rparr>"
  let ?row = "\<lparr>full_name = ''Budi'', employee_code = Some ''E1'', total_days = 31,
    masuk_days = 29, libur_days = 2\<rparr>"
  have e: "?e \<in> set (employees (run demo_ops init_db))"
    by (simp add: demo_db_value)
  have c: "spec_absent_days (run demo_ops init_db) 1 ?lo ?hi = 2"
    by code_simp
  note t = present_plus_absent_is_total[of ?lo ?hi "run demo_ops init_db" demo_ops ?e]
  from t demo_history e c have in_rep: "?row \<in> set (build_report ?lo ?hi (run demo_ops init_db))"
    by simp
  with t have "total_days ?row = date_diff_days ?hi ?lo + 1"
    by blast
  with in_rep demo_history c show ?thesis by simp
qed

text \<open>
  Claim C2: for every active employee and every inclusive date range, the absent-day
  count of the report equals the number of override rows of that employee whose work
  date lies in the range; in particular an active employee with zero overrides in the
  range gets \<open>absent_days = 0\<close> and \<open>present_days = total_days\<close>.  As multisets, the
  report is one row per active employee, with the count of that employee's override rows
  in range as absent days (the order of the rows is the subject of C6).
\<close>

theorem absent_days_count_overrides:
  assumes "history ops" "valid_date lo" "valid_date hi"
  shows "mset (build_report lo hi (run ops init_db)) =
      image_mset
        (\<lambda>e. \<lparr>full_name = e_full_name e, employee_code = e_employee_code e,
               total_days = date_diff_days hi lo + 1,
               masuk_days = date_diff_days hi lo + 1 - spec_absent_days (run ops init_db) (e_id e) lo hi,
               libur_days = spec_absent_days (run ops init_db) (e_id e) lo hi\<rparr>)
        (mset (filter (\<lambda>e. e_is_active e = 1) (employees (run ops init_db)))) \<and>
    (\<forall>e \<in> set (employees (run ops init_db)).
       e_is_active e = 1 \<and> spec_absent_days (run ops init_db) (e_id e) lo hi = 0 \<longrightarrow>
         \<lparr>full_name = e_full_name e, employee_code = e_employee_code e,
          total_days = date_diff_days hi lo + 1, masuk_days = date_diff_days hi lo + 1,
          libur_days = 0\<rparr> \<in> set (build_report lo hi (run ops init_db)))"
proof (intro conjI ballI impI)
  let ?s = "run ops init_db"
  have iso: "dates_iso ?s" by (rule history_dates_iso[OF assms(1)])
  have "spec_report_row ?s lo hi =
      (\<lambda>e. \<lparr>full_name = e_full_name e, employee_code = e_employee_code e,
               total_days = date_diff_days hi lo + 1,
               masuk_days = date_diff_days hi lo + 1 - spec_absent_days ?s (e_id e) lo hi,
               libur_days = spec_absent_days ?s (e_id e) lo hi\<rparr>)"
    by (rule ext) (simp add: spec_report_row_def Let_def)
  with mset_build_report[OF iso assms(2,3)]
  show "mset (build_report lo hi ?s) =
      image_mset
        (\<lambda>e. \<lparr>full_name = e_full_name e, employee_code = e_employee_code e,
               total_days = date_diff_days hi lo + 1,
               masuk_days = date_diff_days hi lo + 1 - spec_absent_days ?s (e_id e) lo hi,
               libur_days = spec_absent_days ?s (e_id e) lo hi\<rparr>)
        (mset (filter (\<lambda>e. e_is_active e = 1) (employees ?s)))"
    by (simp only:)
  fix e
  assume e: "e \<in> set (employees ?s)"
    and a: "e_is_active e = 1 \<and> spec_absent_days ?s (e_id e) lo hi = 0"
  from row_in_report[OF iso assms(2,3) e] a
  have "spec_report_row ?s lo hi e \<in> set (build_report lo hi ?s)" by blast
  moreover have "spec_report_row ?s lo hi e =
      \<lparr>full_name = e_full_name e, employee_code = e_employee_code e,
          total_days = date_diff_days hi lo + 1, masuk_days = date_diff_days hi lo + 1,
          libur_days = 0\<rparr>"
    using a by (simp add: spec_report_row_def Let_def)
  ultimately show "\<lparr>full_name = e_full_name e, employee_code = e_employee_code e,
          total_days = date_diff_days hi lo + 1, masuk_days = date_diff_days hi lo + 1,
          libur_days = 0\<rparr> \<in> set (build_report lo hi ?s)"
    by (simp only:)
qed

theorem absent_days_count_overrides_witness:
  "history demo_ops \<and>
   valid_date \<lparr>year = 2024, month = 3, day = 1\<rparr> \<and> valid_date \<lparr>year = 2024, month = 3, day = 31\<rparr> \<and>
   spec_absent_days (run demo_ops init_db) 2
     \<lparr>year = 2024, month = 3, day = 1\<rparr> \<lparr>year = 2024, month = 3, day = 31\<rparr> = 0 \<and>
   \<lparr>full_name = ''Andi'', employee_code = None, total_days = 31, masuk_days = 31, libur_days = 0\<rparr>
     \<in> set (build_report \<lparr>year = 2024, month = 3, day = 1\<rparr>
                           \<lparr>year = 2024, month = 3, day = 31\<rparr> (run demo_ops init_db))"
proof -
  let ?lo = "\<lparr>year = 2024, month = 3, day = 1\<rparr>" and ?hi = "\<lparr>year = 2024, month = 3, day = 31\<rparr>"
  let ?e = "\<lparr>e_id = 2, e_full_name = ''Andi'', e_employee_code = None,
         e_is_active = 1, e_created_at = ''2024-01-02T08:01:00''\<rparr>"
  have e: "?e \<in> set (employees (run demo_ops init_db))"
    by (simp add: demo_db_value)
  have c: "spec_absent_days (run demo_ops init_db) 2 ?lo ?hi = 0"
    by code_simp
  from absent_days_count_overrides[OF demo_history march_2024(1,2)] e c
  have "\<lparr>full_name = e_full_name ?e, employee_code = e_employee_code ?e,
          total_days = date_diff_days ?hi ?lo + 1, masuk_days = date_diff_days ?hi ?lo + 1,
          libur_days = 0\<rparr> \<in> set (build_report ?lo ?hi (run demo_ops init_db))"
    by fastforce
  with demo_history march_2024 c show ?thesis by simp
qed

text \<open>
  Claim C3: in every reachable database state there is at most one override row per
  (employee, date) pair, and calling \<open>set_libur\<close> twice for the same pair leaves exactly
  one override row, whose note is the one of the second call.  The state is the result of
  any history; both calls may name further employees; the employees named exist (the
  foreign key refuses an override for an id without employee).
\<close>

theorem one_override_per_pair:
  assumes "history ops"
  shows "pairs_unique (run ops init_db) \<and>
    (eid \<in> set ids1 \<and> eid \<in> set ids2 \<and>
     set ids1 \<subseteq> set (map e_id (employees (run ops init_db))) \<and>
     set ids2 \<subseteq> set (map e_id (employees (run ops init_db))) \<longrightarrow>
       fst (set_libur ids1 d n1 t1 (run ops init_db)) = None \<and>
       one_row eid (isoformat d) n1 (snd (set_libur ids1 d n1 t1 (run ops init_db))) \<and>
       fst (set_libur ids2 d n2 t2 (snd (set_libur ids1 d n1 t1 (run ops init_db)))) = None \<and>
       one_row eid (isoformat d) n2
         (snd (set_libur ids2 d n2 t2 (snd (set_libur ids1 d n1 t1 (run ops init_db))))))"
proof (intro conjI impI)
  let ?s = "run ops init_db"
  let ?s1 = "snd (set_libur ids1 d n1 t1 ?s)"
  show pu: "pairs_unique ?s" by (rule history_pairs_unique[OF assms])
  assume h: "eid \<in> set ids1 \<and> eid \<in> set ids2 \<and>
     set ids1 \<subseteq> set (map e_id (employees ?s)) \<and> set ids2 \<subseteq> set (map e_id (employees ?s))"
  show ok1: "fst (set_libur ids1 d n1 t1 ?s) = None"
    using h by (simp add: set_libur_def set_libur_loop_succeeds)
  show "one_row eid (isoformat d) n1 ?s1"
    using set_libur_loop_one_row[OF pu, of eid ids1 "isoformat d" n1 t1] h ok1
    by (simp add: set_libur_def)
  have pu1: "pairs_unique ?s1"
    unfolding set_libur_def
    by (rule set_libur_loop_invariant[where P = pairs_unique, OF pu]) (rule upsert_pairs_unique)
  have "employees ?s1 = employees ?s"
    by (simp add: set_libur_def set_libur_loop_employees)
  with h show ok2: "fst (set_libur ids2 d n2 t2 ?s1) = None"
    by (simp add: set_libur_def set_libur_loop_succeeds)
  show "one_row eid (isoformat d) n2 (snd (set_libur ids2 d n2 t2 ?s1))"
    using set_libur_loop_one_row[OF pu1, of eid ids2 "isoformat d" n2 t2] h ok2
    by (simp add: set_libur_def)
qed

theorem one_override_per_pair_witness:
  "history demo_ops \<and> pairs_unique (run demo_ops init_db) \<and>
   one_row 1 (isoformat \<lparr>year = 2024, month = 1, day = 5\<rparr>) ''sakit''
     (snd (set_libur [1, 2] \<lparr>year = 2024, month = 1, day = 5\<rparr> ''sakit'' ''2024-01-06T10:00:00''
        (snd (set_libur [1] \<lparr>year = 2024, month = 1, day = 5\<rparr> ''cuti tahunan''
                ''2024-01-06T09:00:00'' (run demo_ops init_db)))))"
proof -
  have h: "history demo_ops" by code_simp
  have e: "(1::int) \<in> set [1] \<and> 1 \<in> set [1, 2::int] \<and>
     set [1] \<subseteq> set (map e_id (employees (run demo_ops init_db))) \<and>
     set [1, 2] \<subseteq> set (map e_id (employees (run demo_ops init_db)))"
    by code_simp
  from one_override_per_pair[OF h, of 1 "[1]" "[1, 2]" "\<lparr>year = 2024, month = 1, day = 5\<rparr>"
      "''cuti tahunan''" "''2024-01-06T09:00:00''" "''sakit''" "''2024-01-06T10:00:00''"] e h
  show ?thesis by blast
qed

text \<open>
  Claim C4: for a pair (employee, date) without override row, \<open>clear_override\<close> is a
  no-op: no error, no new row, the whole database unchanged; for a pair with a row it
  deletes exactly that row.  \<open>clear_override\<close> has no failing branch; in general it
  removes the rows of the listed employees on that date and nothing else (first
  conjunct); without a row the state is the same (second); in a reachable state the row
  of the pair is the only one that goes (third).
\<close>

theorem clear_override_effect:
  "clear_override ids d s =
     s\<lparr>attendance_overrides :=
         filter (\<lambda>x. \<not> (o_employee_id x \<in> set ids \<and> o_work_date x = isoformat d))
                (attendance_overrides s)\<rparr> \<and>
   ((\<forall>x \<in> set (attendance_overrides s). \<not> same_pair eid (isoformat d) x) \<longrightarrow>
      clear_override [eid] d s = s) \<and>
   (history ops \<and> r \<in> set (attendance_overrides (run ops init_db)) \<and>
    same_pair eid (isoformat d) r \<longrightarrow>
      clear_override [eid] d (run ops init_db) =
        (run ops init_db)\<lparr>attendance_overrides :=
                             remove1 r (attendance_overrides (run ops init_db))\<rparr>)"
proof (intro conjI impI)
  show "clear_override ids d s =
     s\<lparr>attendance_overrides :=
         filter (\<lambda>x. \<not> (o_employee_id x \<in> set ids \<and> o_work_date x = isoformat d))
                (attendance_overrides s)\<rparr>"
    by (simp only: clear_override_def clear_override_loop_eq)
next
  assume "\<forall>x \<in> set (attendance_overrides s). \<not> same_pair eid (isoformat d) x"
  then show "clear_override [eid] d s = s" by (rule clear_override_absent)
next
  assume h: "history ops \<and> r \<in> set (attendance_overrides (run ops init_db)) \<and>
    same_pair eid (isoformat d) r"
  then have "pairs_unique (run ops init_db)" by (simp add: history_pairs_unique)
  with h show "clear_override [eid] d (run ops init_db) =
        (run ops init_db)\<lparr>attendance_overrides :=
                             remove1 r (attendance_overrides (run ops init_db))\<rparr>"
    by (simp add: clear_override_present)
qed

theorem clear_override_effect_witness:
  "history demo_ops \<and>
   clear_override [2] \<lparr>year = 2024, month = 1, day = 9\<rparr> (run demo_ops init_db) =
     run demo_ops init_db \<and>
   map o_id (attendance_overrides
     (clear_override [1] \<lparr>year = 2024, month = 1, day = 9\<rparr> (run demo_ops init_db))) = [1, 2, 4]"
proof -
  let ?d = "\<lparr>year = 2024, month = 1, day = 9\<rparr>"
  let ?r = "\<lparr>o_id = 3, o_employee_id = 1, o_work_date = ''2024-01-09'',
          o_status = ''LIBUR'', o_notes = Some ''izin'', o_created_at = ''2024-01-08T09:00:00''\<rparr>"
  have absent: "\<forall>x \<in> set (attendance_overrides (run demo_ops init_db)). \<not> same_pair 2 (isoformat ?d) x"
    by code_simp
  have present: "?r \<in> set (attendance_overrides (run demo_ops init_db)) \<and> same_pair 1 (isoformat ?d) ?r"
    by code_simp
  have rest: "map o_id (remove1 ?r (attendance_overrides (run demo_ops init_db))) = [1, 2, 4]"
    by code_simp
  from clear_override_effect[of "[2]" ?d "run demo_ops init_db" 2 demo_ops ?r] absent
  have 1: "clear_override [2] ?d (run demo_ops init_db) = run demo_ops init_db" by blast
  from clear_override_effect[of "[1]" ?d "run demo_ops init_db" 1 demo_ops ?r] present demo_history
  have "clear_override [1] ?d (run demo_ops init_db) =
        (run demo_ops init_db)\<lparr>attendance_overrides :=
                             remove1 ?r (attendance_overrides (run demo_ops init_db))\<rparr>" by blast
  with rest have 2: "map o_id (attendance_overrides (clear_override [1] ?d (run demo_ops init_db))) = [1, 2, 4]"
    by simp
  from 1 2 demo_history show ?thesis by blast
qed

text \<open>
  Claim C5: setting an employee's active flag to inactive removes that employee's row
  from every subsequently built report, while leaving all override rows of that employee
  unchanged.  The override table is unchanged by the update (first conjunct); the report
  built right after it consists of the rows of the other active employees, as they were
  (second); and after any later history that does not set the flag of this employee back
  to active, the report still consists of rows of other employees only (third): the
  counter of the AUTOINCREMENT key keeps new employees from taking the id.
\<close>

theorem deactivation_hides_employee:
  assumes "history ops" "valid_date lo" "valid_date hi"
    and "eid \<in> set (map e_id (employees (run ops init_db)))"
    and "history later" "Save_status ''Aktif'' eid \<notin> set later"
  shows "attendance_overrides (save_status ''Nonaktif'' eid (run ops init_db)) =
      attendance_overrides (run ops init_db) \<and>
    mset (build_report lo hi (save_status ''Nonaktif'' eid (run ops init_db))) =
      image_mset (spec_report_row (run ops init_db) lo hi)
        (mset (filter (\<lambda>e. e_is_active e = 1 \<and> e_id e \<noteq> eid) (employees (run ops init_db)))) \<and>
    mset (build_report lo hi (run later (save_status ''Nonaktif'' eid (run ops init_db)))) =
      image_mset (spec_report_row (run later (save_status ''Nonaktif'' eid (run ops init_db))) lo hi)
        (mset (filter (\<lambda>e. e_is_active e = 1 \<and> e_id e \<noteq> eid)
           (employees (run later (save_status ''Nonaktif'' eid (run ops init_db))))))"
proof (intro conjI)
  let ?s = "run ops init_db"
  let ?s1 = "save_status ''Nonaktif'' eid ?s"
  let ?t = "run later ?s1"
  have s1: "?s1 = run (ops @ [Save_status ''Nonaktif'' eid]) init_db"
    by (simp add: run_snoc)
  have t: "?t = run ((ops @ [Save_status ''Nonaktif'' eid]) @ later) init_db"
    by (simp only: run_append s1)
  have h1: "history (ops @ [Save_status ''Nonaktif'' eid])"
    using assms(1) by (simp add: history_snoc)
  have ht: "history ((ops @ [Save_status ''Nonaktif'' eid]) @ later)"
    using h1 assms(5) by (simp add: history_def)
  have iso1: "dates_iso ?s1" unfolding s1 by (rule history_dates_iso[OF h1])
  have isot: "dates_iso ?t" unfolding t by (rule history_dates_iso[OF ht])
  show ov: "attendance_overrides ?s1 = attendance_overrides ?s"
    by (rule save_status_overrides)
  have "mset (build_report lo hi ?s1) =
      image_mset (spec_report_row ?s1 lo hi) (mset (filter (\<lambda>e. e_is_active e = 1) (employees ?s1)))"
    by (rule mset_build_report[OF iso1 assms(2,3)])
  also have "\<dots> = image_mset (spec_report_row ?s lo hi)
      (mset (filter (\<lambda>e. e_is_active e = 1) (employees ?s1)))"
    by (simp only: spec_report_row_overrides[OF ov])
  also have "\<dots> = image_mset (spec_report_row ?s lo hi)
        (mset (filter (\<lambda>e. e_is_active e = 1 \<and> e_id e \<noteq> eid) (employees ?s)))"
    by (rule deactivate_filter)
  finally show "mset (build_report lo hi ?s1) =
      image_mset (spec_report_row ?s lo hi)
        (mset (filter (\<lambda>e. e_is_active e = 1 \<and> e_id e \<noteq> eid) (employees ?s)))" .
  have "stays_inactive eid ?s1"
    by (rule deactivate_stays_inactive[OF history_ids_bounded[OF assms(1)] assms(4)])
  then have "stays_inactive eid ?t"
    using assms(6) by (rule run_stays_inactive)
  then have f: "filter (\<lambda>e. e_is_active e = 1) (employees ?t) =
         filter (\<lambda>e. e_is_active e = 1 \<and> e_id e \<noteq> eid) (employees ?t)"
    by (rule stays_inactive_filter)
  have "mset (build_report lo hi ?t) =
      image_mset (spec_report_row ?t lo hi) (mset (filter (\<lambda>e. e_is_active e = 1) (employees ?t)))"
    by (rule mset_build_report[OF isot assms(2,3)])
  then show "mset (build_report lo hi ?t) =
      image_mset (spec_report_row ?t lo hi)
        (mset (filter (\<lambda>e. e_is_active e = 1 \<and> e_id e \<noteq> eid) (employees ?t)))"
    by (simp only: f)
qed

theorem deactivation_hides_employee_witness:
  "history demo_ops \<and>
   valid_date \<lparr>year = 2024, month = 1, day = 1\<rparr> \<and> valid_date \<lparr>year = 2024, month = 1, day = 31\<rparr> \<and>
   1 \<in> set (map e_id (employees (run demo_ops init_db))) \<and>
   history [Add_employee ''Cici'' [] ''2024-02-01T08:00:00''] \<and>
   Save_status ''Aktif'' 1 \<notin> set [Add_employee ''Cici'' [] ''2024-02-01T08:00:00''] \<and>
   attendance_overrides (save_status ''Nonaktif'' 1 (run demo_ops init_db)) =
      attendance_overrides (run demo_ops init_db) \<and>
   mset (build_report \<lparr>year = 2024, month = 1, day = 1\<rparr> \<lparr>year = 2024, month = 1, day = 31\<rparr>
           (save_status ''Nonaktif'' 1 (run demo_ops init_db))) =
     {#\<lparr>full_name = ''Andi'', employee_code = None, total_days = 31, masuk_days = 30,
        libur_days = 1\<rparr>#}"
proof -
  let ?lo = "\<lparr>year = 2024, month = 1, day = 1\<rparr>" and ?hi = "\<lparr>year = 2024, month = 1, day = 31\<rparr>"
  let ?later = "[Add_employee ''Cici'' [] ''2024-02-01T08:00:00'']"
  have e: "1 \<in> set (map e_id (employees (run demo_ops init_db)))"
    by (simp add: demo_db_value)
  have l: "history ?later" by (simp add: history_def)
  have n: "Save_status ''Aktif'' 1 \<notin> set ?later" by simp
  have c: "spec_absent_days (run demo_ops init_db) 2 ?lo ?hi = 1" by code_simp
  have f: "filter (\<lambda>e. e_is_active e = 1 \<and> e_id e \<noteq> 1) (employees (run demo_ops init_db)) =
      [\<lparr>e_id = 2, e_full_name = ''Andi'', e_employee_code = None,
         e_is_active = 1, e_created_at = ''2024-01-02T08:01:00''\<rparr>]"
    by (simp add: demo_db_value)
  have r: "image_mset (spec_report_row (run demo_ops init_db) ?lo ?hi)
        (mset (filter (\<lambda>e. e_is_active e = 1 \<and> e_id e \<noteq> 1) (employees (run demo_ops init_db)))) =
     {#\<lparr>full_name = ''Andi'', employee_code = None, total_days = 31, masuk_days = 30,
        libur_days = 1\<rparr>#}"
    by (simp only: f) (simp add: spec_report_row_def c january_2024(3))
  from deactivation_hides_employee[OF demo_history january_2024(1,2) e l n] r
  have "attendance_overrides (save_status ''Nonaktif'' 1 (run demo_ops init_db)) =
      attendance_overrides (run demo_ops init_db) \<and>
    mset (build_report ?lo ?hi (save_status ''Nonaktif'' 1 (run demo_ops init_db))) =
     {#\<lparr>full_name = ''Andi'', employee_code = None, total_days = 31, masuk_days = 30,
        libur_days = 1\<rparr>#}"
    by (simp only:)
  with demo_history january_2024(1,2) e l n show ?thesis by blast
qed

text \<open>
  Claim C6: for every database state and date range, the rows of the report are sorted
  ascending by employee full name, and when the set of active employees is empty the
  report is empty.  The names in the report, in the order of its rows, are the names of
  the active employees in ascending order (one row per active employee, names repeated
  as often as they occur); so the report is sorted, it has as many rows as there are
  active employees, and it is empty exactly when there is none.
\<close>

theorem report_sorted_by_name:
  "map full_name (build_report lo hi s) =
     sort (map e_full_name (filter (\<lambda>e. e_is_active e = 1) (employees s))) \<and>
   sorted (map full_name (build_report lo hi s)) \<and>
   length (build_report lo hi s) = length (filter (\<lambda>e. e_is_active e = 1) (employees s)) \<and>
   ((\<forall>e \<in> set (employees s). e_is_active e \<noteq> 1) \<longrightarrow> build_report lo hi s = []) \<and>
   (build_report lo hi s = [] \<longrightarrow> (\<forall>e \<in> set (employees s). e_is_active e \<noteq> 1))"
proof (intro conjI impI)
  show n: "map full_name (build_report lo hi s) =
     sort (map e_full_name (filter (\<lambda>e. e_is_active e = 1) (employees s)))"
    by (rule build_report_names)
  show "sorted (map full_name (build_report lo hi s))" by (rule sorted_build_report)
  have "length (map full_name (build_report lo hi s)) =
      length (sort (map e_full_name (filter (\<lambda>e. e_is_active e = 1) (employees s))))"
    by (simp only: n)
  then show len: "length (build_report lo hi s) =
      length (filter (\<lambda>e. e_is_active e = 1) (employees s))"
    by simp
  {
    assume "\<forall>e \<in> set (employees s). e_is_active e \<noteq> 1"
    then show "build_report lo hi s = []" by (rule no_active_employee)
  }
  {
    assume "build_report lo hi s = []"
    with len have "filter (\<lambda>e. e_is_active e = 1) (employees s) = []" by simp
    then show "\<forall>e \<in> set (employees s). e_is_active e \<noteq> 1"
      by (simp add: filter_empty_conv)
  }
qed

theorem report_sorted_by_name_witness:
  "map full_name (build_report \<lparr>year = 2024, month = 1, day = 1\<rparr>
     \<lparr>year = 2024, month = 1, day = 31\<rparr> (run demo_ops init_db)) = [''Andi'', ''Budi''] \<and>
   map e_full_name (employees (run demo_ops init_db)) = [''Budi'', ''Andi''] \<and>
   map e_is_active (employees (run (demo_ops @ [Save_status ''Nonaktif'' 1, Save_status ''Nonaktif'' 2])
       init_db)) = [0, 0] \<and>
   build_report \<lparr>year = 2024, month = 1, day = 1\<rparr> \<lparr>year = 2024, month = 1, day = 31\<rparr>
     (run (demo_ops @ [Save_status ''Nonaktif'' 1, Save_status ''Nonaktif'' 2]) init_db) = []"
proof -
  let ?lo = "\<lparr>year = 2024, month = 1, day = 1\<rparr>" and ?hi = "\<lparr>year = 2024, month = 1, day = 31\<rparr>"
  let ?s = "run (demo_ops @ [Save_status ''Nonaktif'' 1, Save_status ''Nonaktif'' 2]) init_db"
  have names: "sort (map e_full_name (filter (\<lambda>e. e_is_active e = 1)
      (employees (run demo_ops init_db)))) = [''Andi'', ''Budi'']"
    by code_simp
  have table: "map e_full_name (employees (run demo_ops init_db)) = [''Budi'', ''Andi'']"
    by (simp add: demo_db_value)
  have v: "map e_is_active (employees ?s) = [0, 0]"
    by (simp add: run_append demo_db_value) (simp add: run_def save_status_def)
  have "\<forall>a \<in> set (map e_is_active (employees ?s)). a \<noteq> 1"
    by (simp only: v) simp
  then have h: "\<forall>e \<in> set (employees ?s). e_is_active e \<noteq> 1"
    by simp
  from report_sorted_by_name[of ?lo ?hi "run demo_ops init_db"] names
  have 1: "map full_name (build_report ?lo ?hi (run demo_ops init_db)) = [''Andi'', ''Budi'']"
    by (simp only:)
  from report_sorted_by_name[of ?lo ?hi ?s] h
  have 2: "build_report ?lo ?hi ?s = []" by blast
  from 1 table v 2 show ?thesis by (simp only:) 
qed

text \<open>
  Claim C7: adding an employee fails with a uniqueness-constraint error, shown to the
  user, exactly when a non-empty employee code is provided that is already in use; in
  every other case (including no code provided) the insertion succeeds and no other error
  class exists.  As stated this fails: the handler first checks the name, and with a blank
  name it inserts nothing and shows a message of its own, whatever the code is.  On the
  new database, with no name and no code:
\<close>

theorem add_employee_blank_name_counterexample:
  "add_employee [] [] ''2024-01-02T08:00:00'' init_db =
     (St_error ''Nama tidak boleh kosong.'', init_db) \<and>
   employees init_db = []"
  by code_simp

text \<open>
  Claim C7, amended: with a name that is not blank, adding an employee fails with the
  uniqueness-constraint error, shown to the user, exactly when the trimmed code is not
  empty and already in use by an existing employee, and in every other case with such a
  name (including no code) the insertion succeeds; with a blank name nothing is inserted
  and the message is "Nama tidak boleh kosong."; no other outcome exists.  The codes
  that are present stay distinct in every reachable state.
\<close>

theorem add_employee_outcomes:
  "(strip name = [] \<longrightarrow>
      add_employee name code now s = (St_error ''Nama tidak boleh kosong.'', s)) \<and>
   (strip name \<noteq> [] \<and> strip code \<noteq> [] \<and>
    Some (strip code) \<in> set (map e_employee_code (employees s)) \<longrightarrow>
      add_employee name code now s =
        (St_error ''Gagal: UNIQUE constraint failed: employees.employee_code'', s)) \<and>
   (strip name \<noteq> [] \<and>
    (strip code = [] \<or> Some (strip code) \<notin> set (map e_employee_code (employees s))) \<longrightarrow>
      add_employee name code now s =
        (St_success ''Karyawan ditambahkan.'',
         s\<lparr>employees := employees s @
              [\<lparr>e_id = new_rowid (seq_employees s) (map e_id (employees s)),
                e_full_name = strip name,
                e_employee_code = (if strip code = [] then None else Some (strip code)),
                e_is_active = 1, e_created_at = now\<rparr>],
           seq_employees := new_rowid (seq_employees s) (map e_id (employees s))\<rparr>)) \<and>
   (history ops \<longrightarrow> codes_unique (run ops init_db))"
  using add_employee_blank add_employee_duplicate add_employee_inserts history_codes_unique
  by blast

theorem add_employee_outcomes_witness:
  "history demo_ops \<and> codes_unique (run demo_ops init_db) \<and>
   add_employee '' '' ''E1'' ''2024-02-01T08:00:00'' (run demo_ops init_db) =
     (St_error ''Nama tidak boleh kosong.'', run demo_ops init_db) \<and>
   add_employee ''Cici'' ''E1 '' ''2024-02-01T08:00:00'' (run demo_ops init_db) =
     (St_error ''Gagal: UNIQUE constraint failed: employees.employee_code'', run demo_ops init_db) \<and>
   fst (add_employee ''Cici'' ''  '' ''2024-02-01T08:00:00'' (run demo_ops init_db)) =
     St_success ''Karyawan ditambahkan.''"
proof -
  let ?s = "run demo_ops init_db" and ?now = "''2024-02-01T08:00:00''"
  have 1: "strip '' '' = []" by code_simp
  have 2: "strip ''Cici'' \<noteq> [] \<and> strip ''E1 '' \<noteq> [] \<and>
      Some (strip ''E1 '') \<in> set (map e_employee_code (employees ?s))"
    by code_simp
  have 3: "strip ''Cici'' \<noteq> [] \<and>
      (strip ''  '' = [] \<or> Some (strip ''  '') \<notin> set (map e_employee_code (employees ?s)))"
    by code_simp
  from add_employee_outcomes[of "'' ''" "''E1''" ?now ?s demo_ops] 1
  have a: "add_employee '' '' ''E1'' ?now ?s = (St_error ''Nama tidak boleh kosong.'', ?s)"
    by blast
  from add_employee_outcomes[of "''Cici''" "''E1 ''" ?now ?s demo_ops] 2
  have b: "add_employee ''Cici'' ''E1 '' ?now ?s =
     (St_error ''Gagal: UNIQUE constraint failed: employees.employee_code'', ?s)"
    by blast
  from add_employee_outcomes[of "''Cici''" "''  ''" ?now ?s demo_ops] 3
  have "fst (add_employee ''Cici'' ''  '' ?now ?s) = St_success ''Karyawan ditambahkan.''"
    by (metis fst_conv)
  moreover from add_employee_outcomes[of "''Cici''" "''  ''" ?now ?s demo_ops] demo_history
  have "codes_unique ?s" by blast
  ultimately show ?thesis using a b demo_history by blast
qed

text \<open>
  Claim C8: for every year and month with \<open>1 \<le> month \<le> 12\<close>, \<open>month_range\<close> returns
  the first and the last day of that month.  The code does not: the value \<open>end\<close> is a
  \<open>datetime.date\<close>, on which \<open>to_pydatetime\<close> does not exist, so the call raises
  \<open>AttributeError\<close>.  Evaluated at January 2024, where the claim expects
  (2024-01-01, 2024-01-31):
\<close>

theorem month_range_january_2024: "month_range 2024 1 = Inl AttributeError"
  by code_simp

text \<open>
  Claim C9: deleting an employee row removes, by cascade, every override row that
  references that employee, so no override row ever references a non-existent employee.
  app.py deletes no employee, so the deletion is the one described by the specification,
  under the connection setting of \<open>get_conn\<close> and the foreign key of \<open>init_db\<close>.  In every
  state that a history reaches (deletions included): the statement is accepted; afterwards
  no employee has the id, the override rows that referred to it are gone and the others
  are all there; and every override row refers to an existing employee.
\<close>

theorem delete_employee_cascades:
  "history ops \<longrightarrow>
     delete_from_employees get_conn employee_id_on_delete eid (run ops init_db) =
       Inr (delete_employee eid (run ops init_db)) \<and>
     eid \<notin> set (map e_id (employees (delete_employee eid (run ops init_db)))) \<and>
     attendance_overrides (delete_employee eid (run ops init_db)) =
       filter (\<lambda>r. o_employee_id r \<noteq> eid) (attendance_overrides (run ops init_db)) \<and>
     refs_exist (run ops init_db) \<and>
     refs_exist (delete_employee eid (run ops init_db))"
proof (intro impI conjI)
  let ?s = "run ops init_db"
  assume h: "history ops"
  show "delete_from_employees get_conn employee_id_on_delete eid ?s = Inr (delete_employee eid ?s)"
    by (simp only: delete_from_employees_cascade delete_employee_eq)
  show "eid \<notin> set (map e_id (employees (delete_employee eid ?s)))"
    by (auto simp: delete_employee_eq)
  show r: "refs_exist ?s" by (rule history_refs_exist[OF h])
  show "attendance_overrides (delete_employee eid ?s) =
       filter (\<lambda>r. o_employee_id r \<noteq> eid) (attendance_overrides ?s)"
  proof (cases "eid \<in> set (map e_id (employees ?s))")
    case True
    then show ?thesis by (simp add: delete_employee_eq)
  next
    case False
    with r have "\<forall>x \<in> set (attendance_overrides ?s). o_employee_id x \<noteq> eid"
      unfolding refs_exist_def list_all_iff by blast
    then have "filter (\<lambda>r. o_employee_id r \<noteq> eid) (attendance_overrides ?s) =
        attendance_overrides ?s"
      by (simp add: filter_id_conv)
    with False show ?thesis by (simp add: delete_employee_eq)
  qed
  have "history (ops @ [Delete_employee eid])" using h by (simp add: history_snoc)
  from history_refs_exist[OF this] show "refs_exist (delete_employee eid ?s)"
    by (simp add: run_snoc)
qed

theorem delete_employee_cascades_witness:
  "history demo_ops \<and>
   map o_employee_id (attendance_overrides (run demo_ops init_db)) = [1, 2, 1, 1] \<and>
   delete_from_employees get_conn employee_id_on_delete 1 (run demo_ops init_db) =
     Inr (delete_employee 1 (run demo_ops init_db)) \<and>
   map e_id (employees (delete_employee 1 (run demo_ops init_db))) = [2] \<and>
   map o_employee_id (attendance_overrides (delete_employee 1 (run demo_ops init_db))) = [2] \<and>
   refs_exist (delete_employee 1 (run demo_ops init_db))"
proof -
  have before: "map o_employee_id (attendance_overrides (run demo_ops init_db)) = [1, 2, 1, 1]"
    by (simp add: demo_db_value)
  have f: "map o_employee_id (filter (\<lambda>r. o_employee_id r \<noteq> 1)
      (attendance_overrides (run demo_ops init_db))) = [2]"
    by (simp add: demo_db_value)
  have e: "map e_id (employees (delete_employee 1 (run demo_ops init_db))) = [2]"
    by (simp add: delete_employee_eq demo_db_value)
  from delete_employee_cascades[of demo_ops 1] demo_history
  have "delete_from_employees get_conn employee_id_on_delete 1 (run demo_ops init_db) =
       Inr (delete_employee 1 (run demo_ops init_db)) \<and>
     attendance_overrides (delete_employee 1 (run demo_ops init_db)) =
       filter (\<lambda>r. o_employee_id r \<noteq> 1) (attendance_overrides (run demo_ops init_db)) \<and>
     refs_exist (delete_employee 1 (run demo_ops init_db))"
    by blast
  with before f e demo_history show ?thesis by (simp only:) 
qed

text \<open>
  Claim C10: when \<open>set_libur\<close> is called for a pair that already has an override row, only
  the row's status and notes are written; its id and created_at stay those of the original
  insertion.  The first conjunct is the call for one employee whose pair has a row; the
  second says, for any list of employees and any state, that the call keeps id, employee,
  date and created_at of every row that was there.
\<close>

theorem set_libur_keeps_id_and_created_at:
  "((\<exists>r \<in> set (attendance_overrides s). same_pair eid (isoformat d) r) \<longrightarrow>
      fst (set_libur [eid] d nts now s) = None \<and>
      employees (snd (set_libur [eid] d nts now s)) = employees s \<and>
      attendance_overrides (snd (set_libur [eid] d nts now s)) =
        map (\<lambda>r. if same_pair eid (isoformat d) r
                  then r\<lparr>o_status := ''LIBUR'', o_notes := Some nts\<rparr> else r)
            (attendance_overrides s)) \<and>
   take (length (attendance_overrides s))
     (map (\<lambda>r. (o_id r, o_employee_id r, o_work_date r, o_created_at r))
        (attendance_overrides (snd (set_libur ids d nts now s)))) =
   map (\<lambda>r. (o_id r, o_employee_id r, o_work_date r, o_created_at r)) (attendance_overrides s)"
proof (intro conjI impI)
  assume "\<exists>r \<in> set (attendance_overrides s). same_pair eid (isoformat d) r"
  note e = set_libur_existing[OF this, of nts now]
  show "fst (set_libur [eid] d nts now s) = None" by (simp only: e fst_conv)
  show "employees (snd (set_libur [eid] d nts now s)) = employees s"
    by (simp only: e snd_conv) simp
  show "attendance_overrides (snd (set_libur [eid] d nts now s)) =
        map (\<lambda>r. if same_pair eid (isoformat d) r
                  then r\<lparr>o_status := ''LIBUR'', o_notes := Some nts\<rparr> else r)
            (attendance_overrides s)"
    by (simp only: e snd_conv) simp
next
  show "take (length (attendance_overrides s))
     (map (\<lambda>r. (o_id r, o_employee_id r, o_work_date r, o_created_at r))
        (attendance_overrides (snd (set_libur ids d nts now s)))) =
   map (\<lambda>r. (o_id r, o_employee_id r, o_work_date r, o_created_at r)) (attendance_overrides s)"
    by (rule set_libur_keeps_rows)
qed

theorem set_libur_keeps_id_and_created_at_witness:
  "(\<exists>r \<in> set (attendance_overrides (run demo_ops init_db)).
      same_pair 1 (isoformat \<lparr>year = 2024, month = 1, day = 9\<rparr>) r) \<and>
   attendance_overrides
     (snd (set_libur [1] \<lparr>year = 2024, month = 1, day = 9\<rparr> ''sakit'' ''2024-03-01T07:00:00''
        (run demo_ops init_db))) ! 2 =
   \<lparr>o_id = 3, o_employee_id = 1, o_work_date = ''2024-01-09'',
    o_status = ''LIBUR'', o_notes = Some ''sakit'', o_created_at = ''2024-01-08T09:00:00''\<rparr>"
proof -
  let ?d = "\<lparr>year = 2024, month = 1, day = 9\<rparr>"
  have ex: "\<exists>r \<in> set (attendance_overrides (run demo_ops init_db)). same_pair 1 (isoformat ?d) r"
    by code_simp
  have v: "map (\<lambda>r. if same_pair 1 (isoformat ?d) r
                  then r\<lparr>o_status := ''LIBUR'', o_notes := Some ''sakit''\<rparr> else r)
            (attendance_overrides (run demo_ops init_db)) ! 2 =
     \<lparr>o_id = 3, o_employee_id = 1, o_work_date = ''2024-01-09'',
      o_status = ''LIBUR'', o_notes = Some ''sakit'', o_created_at = ''2024-01-08T09:00:00''\<rparr>"
    by code_simp
  from set_libur_keeps_id_and_created_at[of "run demo_ops init_db" 1 ?d "''sakit''"
      "''2024-03-01T07:00:00''" "[1]"] ex
  have "attendance_overrides
     (snd (set_libur [1] ?d ''sakit'' ''2024-03-01T07:00:00'' (run demo_ops init_db))) =
     map (\<lambda>r. if same_pair 1 (isoformat ?d) r
                  then r\<lparr>o_status := ''LIBUR'', o_notes := Some ''sakit''\<rparr> else r)
            (attendance_overrides (run demo_ops init_db))"
    by blast
  with v ex show ?thesis by (simp only:) 
qed

end
